theory Spec2Isabelle
  imports Main
begin

section \<open>Python values, exceptions and the random source\<close>

text \<open>
  The development embeds \<^verbatim>\<open>src/tablespec/gx_constraint_extractor.py\<close>
  (class \<^verbatim>\<open>GXConstraintExtractor\<close>).  Python strings are modelled as
  \<^typ>\<open>string\<close>: lists of characters with code points below 256.  The
  case conversions are those of Python on that range; their results are
  lists of code points, since upper-casing leaves it.  Every Python exception
  that one of the embedded operations can raise is a value of
  \<open>error\<close>; a function that can raise returns \<open>error + 'a\<close>.
\<close>

datatype error = ValueError | IndexError | KeyError | TypeError | AttributeError

text \<open>
  The process-wide generator of module \<^verbatim>\<open>random\<close> is explicit state: a
  list of raw draws, read from the left.  An exhausted list keeps delivering
  \<open>0\<close>, so that every list denotes one infinite entropy stream.
\<close>

type_synonym rng = "nat list"

fun draw :: "rng \<Rightarrow> nat \<times> rng" where
  "draw [] = (0, [])"
| "draw (r # rs) = (r, rs)"

definition bind_err :: "error + 'a \<Rightarrow> ('a \<Rightarrow> error + 'b) \<Rightarrow> error + 'b" where
  "bind_err m f = (case m of Inl e \<Rightarrow> Inl e | Inr v \<Rightarrow> f v)"

text \<open>
  \<^verbatim>\<open>random.randint(a, b)\<close> is \<^verbatim>\<open>randrange(a, b + 1)\<close>: it raises
  \<^verbatim>\<open>ValueError\<close> on an empty range before it consumes entropy, and
  otherwise returns \<open>a\<close> plus a draw below the width \<open>b - a + 1\<close>.
\<close>

definition randint :: "int \<Rightarrow> int \<Rightarrow> rng \<Rightarrow> error + (int \<times> rng)" where
  "randint a b g =
     (if b < a then Inl ValueError
      else (case draw g of (r, g') \<Rightarrow> Inr (a + int (r mod nat (b - a + 1)), g')))"

text \<open>
  \<^verbatim>\<open>random.choice(seq)\<close> is \<^verbatim>\<open>seq[randbelow(len(seq))]\<close> and raises
  \<^verbatim>\<open>IndexError\<close> on an empty sequence.
\<close>

definition choice :: "'a list \<Rightarrow> rng \<Rightarrow> error + ('a \<times> rng)" where
  "choice xs g =
     (if xs = [] then Inl IndexError
      else (case draw g of (r, g') \<Rightarrow> Inr (xs ! (r mod length xs), g')))"

section \<open>String operations of the Python library\<close>

definition ascii_uppercase :: string where
  "ascii_uppercase = ''ABCDEFGHIJKLMNOPQRSTUVWXYZ''"

definition ascii_lowercase :: string where
  "ascii_lowercase = ''abcdefghijklmnopqrstuvwxyz''"

definition ascii_letters :: string where
  "ascii_letters = ascii_lowercase @ ascii_uppercase"

definition digits :: string where
  "digits = ''0123456789''"

text \<open>\<^verbatim>\<open>s[i]\<close> for a non-negative index: \<^verbatim>\<open>IndexError\<close> out of range.\<close>

definition item :: "'a list \<Rightarrow> nat \<Rightarrow> error + 'a" where
  "item xs i = (if i < length xs then Inr (xs ! i) else Inl IndexError)"

text \<open>\<^verbatim>\<open>s[a:b]\<close> for non-negative bounds; slicing never raises.\<close>

definition slice :: "'a list \<Rightarrow> nat \<Rightarrow> nat \<Rightarrow> 'a list" where
  "slice s a b = take (b - a) (drop a s)"

text \<open>\<^verbatim>\<open>sub in s\<close> on strings: \<open>sub\<close> occurs as a contiguous substring.\<close>

fun contains :: "string \<Rightarrow> string \<Rightarrow> bool" where
  "contains [] sub = (sub = [])"
| "contains (c # cs) sub = (take (length sub) (c # cs) = sub \<or> contains cs sub)"

text \<open>
  \<^verbatim>\<open>s.find(c, i)\<close> for a one-character needle: the least index at or
  after \<open>i\<close> that holds \<open>c\<close>; Python's \<open>-1\<close> is \<open>None\<close>.
\<close>

primrec index_of :: "char \<Rightarrow> string \<Rightarrow> nat option" where
  "index_of c [] = None"
| "index_of c (x # xs) = (if x = c then Some 0 else map_option Suc (index_of c xs))"

definition str_find :: "string \<Rightarrow> char \<Rightarrow> nat \<Rightarrow> nat option" where
  "str_find s c i = map_option (\<lambda>k. i + k) (index_of c (drop i s))"

text \<open>\<^verbatim>\<open>s.strip(chars)\<close>: drops the characters of \<open>chars\<close> at both ends.\<close>

definition strip_chars :: "string \<Rightarrow> string \<Rightarrow> string" where
  "strip_chars chars s =
     rev (dropWhile (\<lambda>c. c \<in> set chars) (rev (dropWhile (\<lambda>c. c \<in> set chars) s)))"

text \<open>
  \<^verbatim>\<open>str.isspace\<close> on one character below code point 256: TAB to CR, the
  separators FS to US, the space, NEL and the no-break space.
\<close>

definition is_space :: "char \<Rightarrow> bool" where
  "is_space c = (of_char c \<in> {9, 10, 11, 12, 13, 28, 29, 30, 31, 32, 133, 160 :: nat})"

text \<open>\<^verbatim>\<open>s.strip()\<close>: drops white space at both ends.\<close>

definition strip :: "string \<Rightarrow> string" where
  "strip s = rev (dropWhile is_space (rev (dropWhile is_space s)))"

text \<open>
  \<^verbatim>\<open>s.split(sep)\<close> for a non-empty separator: the pieces between the
  non-overlapping occurrences of \<open>sep\<close>, found from the left.  The first
  argument is the piece being collected, reversed.
\<close>

fun split_acc :: "string \<Rightarrow> string \<Rightarrow> string \<Rightarrow> string list" where
  "split_acc sep acc [] = [rev acc]"
| "split_acc sep acc (c # cs) =
     (if take (length sep) (c # cs) = sep
      then rev acc # split_acc sep [] (drop (length sep - 1) cs)
      else split_acc sep (c # acc) cs)"

definition split :: "string \<Rightarrow> string \<Rightarrow> string list" where
  "split s sep = split_acc sep [] s"

text \<open>
  \<^verbatim>\<open>int(s)\<close> in base 10: white space around the literal is dropped, one
  sign is allowed, and single underscores may separate digits.  \<open>None\<close> is
  \<^verbatim>\<open>ValueError\<close>.  The white space of \<^verbatim>\<open>int\<close> is TAB to CR, the
  space, NEL and the no-break space; the separators FS to US are white
  space for \<^verbatim>\<open>str.strip\<close> only.
\<close>

definition is_int_space :: "char \<Rightarrow> bool" where
  "is_int_space c = (of_char c \<in> {9, 10, 11, 12, 13, 32, 133, 160 :: nat})"

definition int_strip :: "string \<Rightarrow> string" where
  "int_strip s = rev (dropWhile is_int_space (rev (dropWhile is_int_space s)))"

definition is_digit :: "char \<Rightarrow> bool" where
  "is_digit c = (c \<in> set digits)"

definition digit_val :: "char \<Rightarrow> nat" where
  "digit_val c = of_char c - 48"

fun parse_digits :: "nat \<Rightarrow> string \<Rightarrow> nat option" where
  "parse_digits acc [] = None"
| "parse_digits acc [c] = (if is_digit c then Some (10 * acc + digit_val c) else None)"
| "parse_digits acc (c # d # cs) =
     (if is_digit c then
        (if d = CHR ''_'' then parse_digits (10 * acc + digit_val c) cs
         else parse_digits (10 * acc + digit_val c) (d # cs))
      else None)"

definition py_int :: "string \<Rightarrow> int option" where
  "py_int s =
     (case int_strip s of
        [] \<Rightarrow> None
      | c # cs \<Rightarrow>
          if c = CHR ''-'' then map_option (\<lambda>n. - int n) (parse_digits 0 cs)
          else if c = CHR ''+'' then map_option int (parse_digits 0 cs)
          else map_option int (parse_digits 0 (c # cs)))"

text \<open>\<^verbatim>\<open>str(n)\<close> for an integer: decimal digits, with a minus sign.\<close>

fun str_nat :: "nat \<Rightarrow> string" where
  "str_nat n = (if n < 10 then [digits ! n] else str_nat (n div 10) @ [digits ! (n mod 10)])"

declare str_nat.simps [simp del]

definition str_int :: "int \<Rightarrow> string" where
  "str_int n = (if n < 0 then CHR ''-'' # str_nat (nat (- n)) else str_nat (nat n))"

section \<open>The character-class sampler\<close>

text \<open>
  \<^verbatim>\<open>_generate_char_from_class\<close>, lines 489 to 520.  The three early
  returns come first, as in the source; the pool of the combined classes is
  built after them.
\<close>

definition generate_char_from_class :: "string \<Rightarrow> rng \<Rightarrow> error + (string \<times> rng)" where
  "generate_char_from_class char_class g =
     (if contains char_class ''A-Z'' then
        bind_err (choice ascii_uppercase g) (\<lambda>(c, g'). Inr ([c], g'))
      else if contains char_class ''a-z'' then
        bind_err (choice ascii_lowercase g) (\<lambda>(c, g'). Inr ([c], g'))
      else if contains char_class ''0-9'' then
        bind_err (randint 0 9 g) (\<lambda>(n, g'). Inr (str_int n, g'))
      else
        (let chars = [];
             chars = (if contains char_class ''A-Z'' \<or> contains char_class ''a-z''
                      then chars @ ascii_letters else chars);
             chars = (if contains char_class ''0-9'' then chars @ digits else chars)
         in if chars \<noteq> [] then bind_err (choice chars g) (\<lambda>(c, g'). Inr ([c], g'))
            else if char_class \<noteq> []
              then bind_err (choice char_class g) (\<lambda>(c, g'). Inr ([c], g'))
            else Inr (''X'', g)))"

section \<open>The pattern-to-sample engine\<close>

text \<open>
  \<^verbatim>\<open>for _ in range(repetition): result.append(sample())\<close>: the sampler
  runs \<open>n\<close> times on the threaded random source; a negative
  \<open>repetition\<close> gives an empty range, hence the callers pass
  \<open>nat repetition\<close>.
\<close>

fun times :: "nat \<Rightarrow> (rng \<Rightarrow> error + (string \<times> rng)) \<Rightarrow> rng \<Rightarrow> error + (string list \<times> rng)" where
  "times 0 sample g = Inr ([], g)"
| "times (Suc n) sample g =
     (case sample g of
        Inl e \<Rightarrow> Inl e
      | Inr (s, g') \<Rightarrow>
          (case times n sample g' of
             Inl e \<Rightarrow> Inl e
           | Inr (ss, g'') \<Rightarrow> Inr (s # ss, g'')))"

text \<open>\<^verbatim>\<open>str(random.randint(0, 9))\<close>, line 447.\<close>

definition random_digit :: "rng \<Rightarrow> error + (string \<times> rng)" where
  "random_digit g = bind_err (randint 0 9 g) (\<lambda>(n, g'). Inr (str_int n, g'))"

text \<open>
  The body of the \<^verbatim>\<open>try\<close> of lines 367 to 380 (the same text again at
  lines 416 to 427): the repetition count that the text between the braces
  denotes.  \<^verbatim>\<open>parts[1]\<close> is read only when \<^verbatim>\<open>len(parts) > 1\<close>.
\<close>

definition brace_repetition :: "string \<Rightarrow> rng \<Rightarrow> error + (int \<times> rng)" where
  "brace_repetition quant_str g =
     (if CHR '','' \<in> set quant_str then
        (let parts = split quant_str '','' in
         bind_err (item parts 0) (\<lambda>part0.
           case py_int part0 of
             None \<Rightarrow> Inl ValueError
           | Some min_val \<Rightarrow>
               if length parts > 1 \<and> strip (parts ! 1) \<noteq> [] then
                 (case py_int (parts ! 1) of
                    None \<Rightarrow> Inl ValueError
                  | Some max_val \<Rightarrow> randint min_val max_val g)
               else randint min_val (min_val + 5) g))
      else (case py_int quant_str of
              None \<Rightarrow> Inl ValueError
            | Some n \<Rightarrow> Inr (n, g)))"

text \<open>
  The quantifier after a character class (lines 356 to 397) and after
  \<^verbatim>\<open>\d\<close> (lines 405 to 444; the two blocks are the same text).  The
  result is \<open>(repetition, i, g)\<close>: the count, the cursor after the
  quantifier, and the random source.  \<^verbatim>\<open>except ValueError\<close> leaves
  \<open>repetition = 1\<close> and sets \<open>i = next_pos\<close>; the failed \<^verbatim>\<open>try\<close> has
  consumed no entropy.
\<close>

definition quantifier :: "string \<Rightarrow> nat \<Rightarrow> rng \<Rightarrow> error + (int \<times> nat \<times> rng)" where
  "quantifier pattern next_pos g =
     (if next_pos < length pattern then
        bind_err (item pattern next_pos) (\<lambda>c.
          if c = CHR ''{'' then
            (case str_find pattern CHR ''}'' next_pos of
               Some end_brace \<Rightarrow>
                 (case brace_repetition (slice pattern (next_pos + 1) end_brace) g of
                    Inr (repetition, g') \<Rightarrow> Inr (repetition, end_brace + 1, g')
                  | Inl ValueError \<Rightarrow> Inr (1, next_pos, g)
                  | Inl e \<Rightarrow> Inl e)
             | None \<Rightarrow> Inr (1, next_pos, g))
          else if c = CHR ''+'' then
            bind_err (randint 3 10 g) (\<lambda>(repetition, g'). Inr (repetition, next_pos + 1, g'))
          else if c = CHR ''?'' then
            bind_err (choice [0, 1] g) (\<lambda>(repetition, g'). Inr (repetition, next_pos + 1, g'))
          else Inr (1, next_pos, g))
      else Inr (1, next_pos, g))"

text \<open>The quantifier after a group, lines 457 to 471.\<close>

definition group_quantifier :: "string \<Rightarrow> nat \<Rightarrow> rng \<Rightarrow> error + (int \<times> nat \<times> rng)" where
  "group_quantifier pattern next_pos g =
     (if next_pos < length pattern then
        bind_err (item pattern next_pos) (\<lambda>c.
          if c = CHR ''+'' then
            bind_err (randint 1 3 g) (\<lambda>(repetition, g'). Inr (repetition, next_pos + 1, g'))
          else if c = CHR ''?'' then
            bind_err (choice [0, 1] g) (\<lambda>(repetition, g'). Inr (repetition, next_pos + 1, g'))
          else Inr (1, next_pos, g))
      else Inr (1, next_pos, g))"

text \<open>
  One pass through the body of the \<^verbatim>\<open>while\<close> loop, lines 337 to 485,
  at cursor \<open>i\<close>.  The result is the new cursor, the strings appended to
  \<^verbatim>\<open>result\<close>, and the random source.  \<open>self\<close> is the method that the
  group branch calls on the text of the group
  (\<^verbatim>\<open>self.generate_value_from_regex\<close>).  The backslash is \<open>CHR 0x5C\<close>.
\<close>

definition dispatch ::
  "(string \<Rightarrow> rng \<Rightarrow> error + (string \<times> rng)) \<Rightarrow> string \<Rightarrow> nat \<Rightarrow> rng
     \<Rightarrow> error + (nat \<times> string list \<times> rng)" where
  "dispatch self pattern i g =
     bind_err (item pattern i) (\<lambda>c.
     bind_err (if i + 1 < length pattern \<and> c = CHR 0x5C
               then bind_err (item pattern (i + 1)) (\<lambda>next_char. Inr (next_char = CHR ''.''))
               else Inr False) (\<lambda>escaped_dot.
       if escaped_dot then Inr (i + 2, [''.''], g)
       else if c = CHR ''['' then
         (case str_find pattern CHR '']'' i of
            None \<Rightarrow> Inr (i + 1, [], g)
          | Some end_bracket \<Rightarrow>
              (let char_class = slice pattern (i + 1) end_bracket in
               bind_err (quantifier pattern (end_bracket + 1) g) (\<lambda>(repetition, i', g').
               bind_err (times (nat repetition) (generate_char_from_class char_class) g')
                 (\<lambda>(out, g''). Inr (i', out, g'')))))
       else if slice pattern i (i + 2) = [CHR 0x5C, CHR ''d''] then
         bind_err (quantifier pattern (i + 2) g) (\<lambda>(repetition, i', g').
         bind_err (times (nat repetition) random_digit g')
           (\<lambda>(out, g''). Inr (i', out, g'')))
       else if c = CHR ''('' then
         (case str_find pattern CHR '')'' i of
            Some end_paren \<Rightarrow>
              bind_err (self (slice pattern (i + 1) end_paren) g) (\<lambda>(group_result, g').
              bind_err (group_quantifier pattern (end_paren + 1) g') (\<lambda>(repetition, i', g'').
                Inr (i', replicate (nat repetition) group_result, g'')))
          | None \<Rightarrow> Inr (i + 1, [], g))
       else if c \<in> set ''.*|'' then Inr (i + 1, [], g)
       else Inr (i + 1, [[c]], g)))"

subsection \<open>Cursor movement\<close>

lemma index_of_Some: "index_of c s = Some k \<Longrightarrow> k < length s \<and> s ! k = c"
  by (induction s arbitrary: k) (auto split: if_splits)

lemma str_find_Some:
  "str_find s c i = Some k \<Longrightarrow> i \<le> k \<and> k < length s \<and> s ! k = c"
  by (auto simp: str_find_def dest!: index_of_Some)

lemma bind_err_Inr:
  "bind_err m f = Inr r \<longleftrightarrow> (\<exists>v. m = Inr v \<and> f v = Inr r)"
  by (cases m) (simp_all add: bind_err_def)

lemma bind_err_cong [fundef_cong]:
  "m = m' \<Longrightarrow> (\<And>v. m' = Inr v \<Longrightarrow> f v = f' v) \<Longrightarrow> bind_err m f = bind_err m' f'"
  by (cases m') (simp_all add: bind_err_def)

lemma quantifier_cursor:
  assumes "quantifier p np g = Inr (rep, i', g')" and "np \<le> length p"
  shows "np \<le> i' \<and> i' \<le> length p"
  using assms
  by (auto simp: quantifier_def bind_err_Inr split: if_splits option.splits sum.splits error.splits
      dest!: str_find_Some)

lemma group_quantifier_cursor:
  assumes "group_quantifier p np g = Inr (rep, i', g')" and "np \<le> length p"
  shows "np \<le> i' \<and> i' \<le> length p"
  using assms
  by (auto simp: group_quantifier_def bind_err_Inr split: if_splits)

lemma slice_two: "slice p i (Suc (Suc i)) = [a, b] \<Longrightarrow> Suc (Suc i) \<le> length p"
proof -
  assume "slice p i (Suc (Suc i)) = [a, b]"
  then have "length (take 2 (drop i p)) = 2" by (simp add: slice_def)
  then show ?thesis by simp
qed

lemma dispatch_cursor:
  assumes "dispatch self p i g = Inr (i', out, g')" and "i < length p"
  shows "i < i' \<and> i' \<le> length p"
proof -
  from assms obtain c where c: "item p i = Inr c"
    by (auto simp: dispatch_def bind_err_Inr)
  show ?thesis
    using assms c
    apply (simp add: dispatch_def bind_err_Inr)
    apply (elim exE conjE)
    apply (simp split: if_splits option.splits add: bind_err_Inr Let_def)
    apply (auto dest!: str_find_Some slice_two dest: quantifier_cursor group_quantifier_cursor)
    done
qed

lemma group_content_shorter:
  "str_find p c i = Some e \<Longrightarrow> length (slice p (i + 1) e) < length p"
  by (auto simp: slice_def dest!: str_find_Some)

text \<open>
  The loop body calls \<open>self\<close> on the text of a group only, which is
  shorter than the pattern.
\<close>

lemma dispatch_cong [fundef_cong]:
  assumes "p = p'" "i = i'" "g = g'"
    and "\<And>s r. length s < length p' \<Longrightarrow> self s r = self' s r"
  shows "dispatch self p i g = dispatch self' p' i' g'"
proof -
  have "\<And>e r. str_find p' CHR '')'' i' = Some e \<Longrightarrow>
      self (slice p' (i' + 1) e) r = self' (slice p' (i' + 1) e) r"
    using assms(4) group_content_shorter by blast
  then show ?thesis
    unfolding dispatch_def assms(1-3)
    by (auto intro!: bind_err_cong split: option.splits)
qed

lemma length_strip_chars: "length (strip_chars cs s) \<le> length s"
proof -
  have "length (dropWhile P xs) \<le> length xs" for P and xs :: string
    by (induction xs) auto
  then show ?thesis
    unfolding strip_chars_def
    by (metis length_rev order_trans)
qed

subsection \<open>The generator\<close>

text \<open>
  \<^verbatim>\<open>generate_value_from_regex\<close>, lines 311 to 487: the anchors are
  stripped, and \<open>scan\<close> is the \<^verbatim>\<open>while i < len(pattern)\<close> loop with
  its variables \<open>i\<close> and \<open>result\<close>; \<^verbatim>\<open>"".join(result)\<close> is
  \<open>concat\<close>.  An exception raised in the loop body leaves the loop.
\<close>

function generate_value_from_regex :: "string \<Rightarrow> rng \<Rightarrow> error + (string \<times> rng)"
  and scan :: "string \<Rightarrow> nat \<Rightarrow> string list \<Rightarrow> rng \<Rightarrow> error + (string \<times> rng)" where
  "generate_value_from_regex regex_pattern g =
     scan (strip_chars ''^$'' regex_pattern) 0 [] g"
| "scan pattern i result g =
     (if i < length pattern then
        bind_err (dispatch generate_value_from_regex pattern i g)
          (\<lambda>(i', out, g'). scan pattern i' (result @ out) g')
      else Inr (concat result, g))"
  by pat_completeness auto

termination
proof (relation "measures
    [\<lambda>x. case x of Inl (p, g) \<Rightarrow> length p | Inr (p, i, r, g) \<Rightarrow> length p,
     \<lambda>x. case x of Inl _ \<Rightarrow> 1 | Inr _ \<Rightarrow> 0,
     \<lambda>x. case x of Inl _ \<Rightarrow> 0 | Inr (p, i, r, g) \<Rightarrow> length p - i]", goal_cases)
  case 1
  show ?case by simp
next
  case (2 regex_pattern g)
  show ?case using length_strip_chars [of "''^$''" regex_pattern] by auto
next
  case (3 pattern i result g s r)
  then show ?case by simp
next
  case (4 pattern i result g v i' rest out g')
  then show ?case using dispatch_cursor by fastforce
qed

declare scan.simps [simp del]

text \<open>
  The same loop with a budget of passes through its body: \<open>None\<close> when
  the budget is used up before the cursor reaches the end of the pattern.
\<close>

fun scan_fuel ::
  "nat \<Rightarrow> string \<Rightarrow> nat \<Rightarrow> string list \<Rightarrow> rng \<Rightarrow> (error + (string \<times> rng)) option" where
  "scan_fuel 0 pattern i result g =
     (if i < length pattern then None else Some (Inr (concat result, g)))"
| "scan_fuel (Suc n) pattern i result g =
     (if i < length pattern then
        (case dispatch generate_value_from_regex pattern i g of
           Inl e \<Rightarrow> Some (Inl e)
         | Inr (i', out, g') \<Rightarrow> scan_fuel n pattern i' (result @ out) g')
      else Some (Inr (concat result, g)))"

subsection \<open>Unfolding the loop\<close>


lemma bind_err_simps [simp]:
  "bind_err (Inr v) f = f v" "bind_err (Inl e) f = Inl e"
  by (simp_all add: bind_err_def)

lemma scan_step:
  "i < length p \<Longrightarrow> scan p i res g =
     bind_err (dispatch generate_value_from_regex p i g) (\<lambda>(i', out, g'). scan p i' (res @ out) g')"
  by (subst scan.simps) simp

lemma scan_done: "\<not> i < length p \<Longrightarrow> scan p i res g = Inr (concat res, g)"
  by (subst scan.simps) simp

lemma scan_fuel_enough:
  "length p - i \<le> n \<Longrightarrow> scan_fuel n p i res g = Some (scan p i res g)"
proof (induction n arbitrary: i res g)
  case 0
  then show ?case by (simp add: scan_done)
next
  case (Suc n)
  show ?case
  proof (cases "i < length p")
    case False
    then show ?thesis by (simp add: scan_done)
  next
    case True
    show ?thesis
    proof (cases "dispatch generate_value_from_regex p i g")
      case (Inl e)
      with True show ?thesis by (simp add: scan_step)
    next
      case (Inr r)
      obtain i' out g' where r: "r = (i', out, g')" by (cases r)
      with Inr True have "i < i'" using dispatch_cursor by blast
      with Suc.prems have "length p - i' \<le> n" by linarith
      from Suc.IH [OF this] Inr r True show ?thesis by (simp add: scan_step)
    qed
  qed
qed

subsection \<open>No exception leaves the engine\<close>

lemma split_acc_nonempty: "split_acc sep acc s \<noteq> []"
  by (induction sep acc s rule: split_acc.induct) auto

lemma randint_ok: "a \<le> b \<Longrightarrow> randint a b g = Inr (a + int (fst (draw g) mod nat (b - a + 1)), snd (draw g))"
  by (simp add: randint_def split: prod.split)

lemma randint_error: "randint a b g = Inl e \<Longrightarrow> e = ValueError"
  by (auto simp: randint_def split: if_splits prod.splits)

lemma choice_ok: "xs \<noteq> [] \<Longrightarrow> choice xs g = Inr (xs ! (fst (draw g) mod length xs), snd (draw g))"
  by (simp add: choice_def split: prod.split)

lemma brace_repetition_error: "brace_repetition q g = Inl e \<Longrightarrow> e = ValueError"
  by (auto simp: brace_repetition_def Let_def item_def split_def split_acc_nonempty
      split: if_splits option.splits dest: randint_error)

lemma quantifier_total: "\<exists>rep i' g'. quantifier p np g = Inr (rep, i', g')"
proof (cases "brace_repetition (slice p (np + 1) (the (str_find p CHR ''}'' np))) g")
  case (Inl e)
  then have "e = ValueError" by (rule brace_repetition_error)
  with Inl show ?thesis
    by (auto simp: quantifier_def item_def randint_ok choice_ok split: option.splits)
next
  case (Inr r)
  then show ?thesis
    by (cases r) (auto simp: quantifier_def item_def randint_ok choice_ok split: option.splits)
qed

lemma group_quantifier_total: "\<exists>rep i' g'. group_quantifier p np g = Inr (rep, i', g')"
  by (auto simp: group_quantifier_def item_def randint_ok choice_ok)

lemma str_nat_digit: "n < 10 \<Longrightarrow> str_nat n = [digits ! n]"
  by (subst str_nat.simps) simp

lemma str_int_digit: "str_int (int (r mod 10)) = [digits ! (r mod 10)]"
  by (simp add: str_int_def str_nat_digit)

lemma generate_char_from_class_total:
  "\<exists>c g'. generate_char_from_class cls g = Inr ([c], g')"
  by (auto simp: generate_char_from_class_def choice_ok randint_ok ascii_uppercase_def
      ascii_lowercase_def ascii_letters_def Let_def str_int_digit)

lemma times_total:
  assumes "\<And>g. \<exists>s g'. sample g = Inr (s, g') \<and> P s"
  shows "\<exists>ss g'. times n sample g = Inr (ss, g') \<and> length ss = n \<and> list_all P ss"
proof (induction n arbitrary: g)
  case 0
  show ?case by simp
next
  case (Suc n)
  from assms obtain s g1 where s: "sample g = Inr (s, g1)" "P s" by blast
  from Suc.IH obtain ss g2 where ss: "times n sample g1 = Inr (ss, g2)" "length ss = n" "list_all P ss"
    by blast
  from s ss show ?case by simp
qed

lemma random_digit_total: "\<exists>s g'. random_digit g = Inr (s, g') \<and> True"
  by (simp add: random_digit_def randint_ok)

lemma dispatch_total:
  assumes "i < length p"
    and self: "\<And>s r. length s < length p \<Longrightarrow> \<exists>v g'. self s r = Inr (v, g')"
  shows "\<exists>i' out g'. dispatch self p i g = Inr (i', out, g')"
proof -
  have cls: "\<exists>i' out g'.
      bind_err (quantifier p np g) (\<lambda>(repetition, i', g').
        bind_err (times (nat repetition) (generate_char_from_class cc) g')
          (\<lambda>(out, g''). Inr (i', out, g''))) = Inr (i', out, g')" for np cc
  proof -
    obtain rep i1 g1 where q: "quantifier p np g = Inr (rep, i1, g1)"
      using quantifier_total by blast
    have "\<And>g. \<exists>s g'. generate_char_from_class cc g = Inr (s, g') \<and> True"
      using generate_char_from_class_total by blast
    from times_total [of "generate_char_from_class cc" "\<lambda>_. True", OF this]
    obtain ss g2 where "times (nat rep) (generate_char_from_class cc) g1 = Inr (ss, g2)"
      by blast
    with q show ?thesis by simp
  qed
  have dig: "\<exists>i' out g'.
      bind_err (quantifier p np g) (\<lambda>(repetition, i', g').
        bind_err (times (nat repetition) random_digit g')
          (\<lambda>(out, g''). Inr (i', out, g''))) = Inr (i', out, g')" for np
  proof -
    obtain rep i1 g1 where q: "quantifier p np g = Inr (rep, i1, g1)"
      using quantifier_total by blast
    from times_total [of random_digit "\<lambda>_. True", OF random_digit_total]
    obtain ss g2 where "times (nat rep) random_digit g1 = Inr (ss, g2)"
      by blast
    with q show ?thesis by simp
  qed
  have grp: "\<exists>i' out g'.
      bind_err (self (slice p (i + 1) e) g) (\<lambda>(group_result, g').
        bind_err (group_quantifier p (e + 1) g') (\<lambda>(repetition, i', g'').
          Inr (i', replicate (nat repetition) group_result, g''))) = Inr (i', out, g')"
    if "str_find p CHR '')'' i = Some e" for e
  proof -
    from that have "length (slice p (i + 1) e) < length p" by (rule group_content_shorter)
    from self [OF this] obtain v g1 where v: "self (slice p (i + 1) e) g = Inr (v, g1)" by blast
    obtain rep i1 g2 where "group_quantifier p (e + 1) g1 = Inr (rep, i1, g2)"
      using group_quantifier_total by blast
    with v show ?thesis by simp
  qed
  from assms(1) have it: "item p i = Inr (p ! i)" by (simp add: item_def)
  show ?thesis
    unfolding dispatch_def it
    using cls dig grp
    by (auto simp: item_def Let_def split: option.splits)
qed

lemma scan_total:
  assumes self: "\<And>s r. length s < length p \<Longrightarrow> \<exists>v g'. generate_value_from_regex s r = Inr (v, g')"
  shows "\<exists>v g'. scan p i res g = Inr (v, g')"
proof (induction "length p - i" arbitrary: i res g rule: less_induct)
  case less
  show ?case
  proof (cases "i < length p")
    case False
    then show ?thesis by (simp add: scan_done)
  next
    case True
    have "\<exists>i' out g'. dispatch generate_value_from_regex p i g = Inr (i', out, g')"
      using True self by (rule dispatch_total)
    then obtain i' out g'
      where d: "dispatch generate_value_from_regex p i g = Inr (i', out, g')" by blast
    with True have "i < i'" using dispatch_cursor by blast
    with True have "length p - i' < length p - i" by linarith
    from less [OF this] d True show ?thesis by (simp add: scan_step)
  qed
qed

lemma generate_total: "\<exists>v g'. generate_value_from_regex p g = Inr (v, g')"
proof (induction "length p" arbitrary: p g rule: less_induct)
  case less
  have "\<exists>v g'. generate_value_from_regex s r = Inr (v, g')"
    if "length s < length (strip_chars ''^$'' p)" for s r
  proof -
    from that have "length s < length p"
      using length_strip_chars [of "''^$''" p] by linarith
    then show ?thesis by (rule less)
  qed
  then show ?case by (simp add: scan_total)
qed

lemmas engine_eval = scan_step scan_done dispatch_def item_def slice_def strip_chars_def
  str_find_def quantifier_def group_quantifier_def

subsection \<open>Literal characters and the optional quantifier\<close>

lemma slice_two_iff:
  "slice p i (i + 2) = [a, b] \<longleftrightarrow> i + 1 < length p \<and> p ! i = a \<and> p ! (i + 1) = b"
proof (cases "i + 1 < length p")
  case True
  then have "drop i p = p ! i # p ! (i + 1) # drop (i + 2) p"
    by (simp add: Cons_nth_drop_Suc)
  with True show ?thesis by (simp add: slice_def)
next
  case False
  then have "length (slice p i (i + 2)) \<noteq> 2" by (simp add: slice_def)
  with False show ?thesis by auto
qed

lemma dispatch_literal:
  assumes "i < length p"
    and "p ! i \<notin> set ''[(.*|''"
    and "p ! i = CHR 0x5C \<longrightarrow> i + 1 < length p \<longrightarrow>
           p ! (i + 1) \<noteq> CHR ''.'' \<and> p ! (i + 1) \<noteq> CHR ''d''"
  shows "dispatch self p i g = Inr (i + 1, [[p ! i]], g)"
proof -
  have "slice p i (i + 2) \<noteq> [CHR 0x5C, CHR ''d'']"
    using assms(3) slice_two_iff [of p i "CHR 0x5C" "CHR ''d''"] by blast
  with assms show ?thesis
    by (auto simp: dispatch_def item_def)
qed

lemma choice_01: "[0, 1 :: int] ! (r mod Suc (Suc 0)) = int (r mod 2)"
proof -
  have "r mod 2 = 0 \<or> r mod 2 = 1" by arith
  then show ?thesis by (auto simp flip: numeral_2_eq_2)
qed

lemma quantifier_optional:
  "np < length p \<Longrightarrow> p ! np = CHR ''?'' \<Longrightarrow>
     quantifier p np g = Inr (int (fst (draw g) mod 2), np + 1, snd (draw g))"
  by (simp add: quantifier_def item_def choice_ok choice_01)

lemma group_quantifier_optional:
  "np < length p \<Longrightarrow> p ! np = CHR ''?'' \<Longrightarrow>
     group_quantifier p np g = Inr (int (fst (draw g) mod 2), np + 1, snd (draw g))"
  by (simp add: group_quantifier_def item_def choice_ok choice_01)

subsection \<open>Decimal text and the brace quantifier\<close>

lemma digits_nth: "n < 10 \<Longrightarrow> is_digit (digits ! n) \<and> digit_val (digits ! n) = n"
proof -
  assume "n < 10"
  then have "n \<in> {0, 1, 2, 3, 4, 5, 6, 7, 8, 9}" by auto
  then show ?thesis
    by (auto simp: is_digit_def digit_val_def digits_def)
qed

lemma is_digit_plain:
  "is_digit c \<Longrightarrow> c \<noteq> CHR ''_'' \<and> c \<noteq> CHR '','' \<and> c \<noteq> CHR ''}'' \<and> c \<noteq> CHR ''-''
     \<and> c \<noteq> CHR ''+'' \<and> \<not> is_space c \<and> \<not> is_int_space c"
  by (auto simp: is_digit_def digits_def is_space_def is_int_space_def)

lemma str_nat_digits: "str_nat n \<noteq> [] \<and> list_all is_digit (str_nat n)"
proof (induction n rule: str_nat.induct)
  case (1 n)
  show ?case
  proof (cases "n < 10")
    case True
    then show ?thesis by (simp add: str_nat_digit digits_nth)
  next
    case False
    then have "str_nat n = str_nat (n div 10) @ [digits ! (n mod 10)]"
      by (subst str_nat.simps) simp
    with 1 False show ?thesis by (simp add: digits_nth)
  qed
qed

lemma parse_digits_snoc:
  "ds \<noteq> [] \<Longrightarrow> list_all is_digit ds \<Longrightarrow> is_digit d \<Longrightarrow>
     parse_digits acc (ds @ [d]) = map_option (\<lambda>v. 10 * v + digit_val d) (parse_digits acc ds)"
proof (induction acc ds rule: parse_digits.induct)
  case (1 acc)
  then show ?case by simp
next
  case (2 acc c)
  then show ?case using is_digit_plain [of d] by simp
next
  case (3 acc c e cs)
  then show ?case using is_digit_plain [of e] by simp
qed

lemma parse_digits_str_nat: "parse_digits 0 (str_nat n) = Some n"
proof (induction n rule: str_nat.induct)
  case (1 n)
  show ?case
  proof (cases "n < 10")
    case True
    then show ?thesis by (simp add: str_nat_digit digits_nth)
  next
    case False
    then have eq: "str_nat n = str_nat (n div 10) @ [digits ! (n mod 10)]"
      by (subst str_nat.simps) simp
    from False 1 have "parse_digits 0 (str_nat (n div 10)) = Some (n div 10)" by simp
    then show ?thesis
      unfolding eq using str_nat_digits [of "n div 10"]
      by (simp add: parse_digits_snoc digits_nth)
  qed
qed

lemma strip_unchanged:
  assumes "s \<noteq> []" and "\<not> is_space (hd s)" and "\<not> is_space (last s)"
  shows "strip s = s"
proof -
  from assms have "dropWhile is_space s = s" by (cases s) simp_all
  moreover from assms have "dropWhile is_space (rev s) = rev s"
    by (cases "rev s") (simp_all add: last_rev [symmetric] hd_rev)
  ultimately show ?thesis by (simp add: strip_def)
qed

lemma int_strip_unchanged:
  assumes "s \<noteq> []" and "\<not> is_int_space (hd s)" and "\<not> is_int_space (last s)"
  shows "int_strip s = s"
proof -
  from assms have "dropWhile is_int_space s = s" by (cases s) simp_all
  moreover from assms have "dropWhile is_int_space (rev s) = rev s"
    by (cases "rev s") (simp_all add: last_rev [symmetric] hd_rev)
  ultimately show ?thesis by (simp add: int_strip_def)
qed

lemma str_nat_ends:
  "is_digit (hd (str_nat n)) \<and> is_digit (last (str_nat n))"
  using str_nat_digits [of n]
  by (metis hd_in_set last_in_set list_all_iff)

lemma py_int_str_int: "py_int (str_int n) = Some n"
proof (cases "n < 0")
  case True
  have "int_strip (CHR ''-'' # str_nat (nat (- n))) = CHR ''-'' # str_nat (nat (- n))"
    using str_nat_ends [of "nat (- n)"] str_nat_digits [of "nat (- n)"]
    by (intro int_strip_unchanged) (auto simp: is_int_space_def dest: is_digit_plain)
  with True show ?thesis
    by (simp add: py_int_def str_int_def parse_digits_str_nat)
next
  case False
  obtain c cs where cs: "str_nat (nat n) = c # cs"
    using str_nat_digits [of "nat n"] by (cases "str_nat (nat n)") auto
  have "int_strip (str_nat (nat n)) = str_nat (nat n)"
    using str_nat_ends [of "nat n"] str_nat_digits [of "nat n"]
    by (intro int_strip_unchanged) (auto dest: is_digit_plain)
  moreover have "is_digit c" using str_nat_ends [of "nat n"] cs by simp
  moreover have "parse_digits 0 (c # cs) = Some (nat n)"
    using parse_digits_str_nat [of "nat n"] cs by simp
  ultimately show ?thesis
    using False cs is_digit_plain [of c]
    by (simp add: py_int_def str_int_def)
qed

lemma str_int_chars: "c \<in> set (str_int n) \<Longrightarrow> c \<noteq> CHR '','' \<and> c \<noteq> CHR ''}''"
  using str_nat_digits [of "nat n"] str_nat_digits [of "nat (- n)"]
  by (auto simp: str_int_def list_all_iff dest: is_digit_plain split: if_splits)

lemma str_int_nonempty: "str_int n \<noteq> []"
  using str_nat_digits by (simp add: str_int_def)

lemma split_acc_no_sep:
  "c \<notin> set xs \<Longrightarrow> split_acc [c] acc xs = [rev acc @ xs]"
  by (induction xs arbitrary: acc) auto

lemma split_acc_first:
  "c \<notin> set xs \<Longrightarrow> split_acc [c] acc (xs @ c # ys) = (rev acc @ xs) # split_acc [c] [] ys"
  by (induction xs arbitrary: acc) auto

lemma split_range: "split (str_int n @ CHR '','' # str_int m) '','' = [str_int n, str_int m]"
proof -
  have "CHR '','' \<notin> set (str_int n)" "CHR '','' \<notin> set (str_int m)"
    using str_int_chars by blast+
  then show ?thesis
    using split_acc_first [of "CHR '',''" "str_int n" "[]" "str_int m"]
    by (simp add: split_def split_acc_no_sep)
qed

lemma split_open: "split (str_int n @ [CHR '','']) '','' = [str_int n, []]"
proof -
  have "CHR '','' \<notin> set (str_int n)"
    using str_int_chars by blast
  then show ?thesis
    using split_acc_first [of "CHR '',''" "str_int n" "[]" "[]"]
    by (simp add: split_def)
qed

lemma strip_str_int: "strip (str_int m) \<noteq> []"
proof -
  have "str_nat (nat m) \<noteq> []" "str_nat (nat (- m)) \<noteq> []"
    using str_nat_digits by simp_all
  moreover have "strip (CHR ''-'' # str_nat (nat (- m))) = CHR ''-'' # str_nat (nat (- m))"
    using str_nat_ends [of "nat (- m)"] str_nat_digits [of "nat (- m)"]
    by (intro strip_unchanged) (auto simp: is_space_def dest: is_digit_plain)
  moreover have "strip (str_nat (nat m)) = str_nat (nat m)"
    using str_nat_ends [of "nat m"] str_nat_digits [of "nat m"]
    by (intro strip_unchanged) (auto dest: is_digit_plain)
  ultimately show ?thesis by (simp add: str_int_def)
qed

lemma brace_repetition_range:
  "brace_repetition (str_int n @ CHR '','' # str_int m) g = randint n m g"
  by (simp add: brace_repetition_def split_range item_def py_int_str_int strip_str_int Let_def)

lemma brace_repetition_open:
  "brace_repetition (str_int n @ [CHR '','']) g = randint n (n + 5) g"
  by (simp add: brace_repetition_def split_open item_def py_int_str_int strip_def Let_def)

lemma brace_repetition_exact:
  "brace_repetition (str_int n) g = Inr (n, g)"
  using str_int_chars [of "CHR '',''" n]
  by (auto simp: brace_repetition_def py_int_str_int)

lemma index_of_first: "c \<notin> set xs \<Longrightarrow> index_of c (xs @ c # ys) = Some (length xs)"
  by (induction xs) auto

lemma quantifier_brace:
  assumes "CHR ''}'' \<notin> set q"
  shows "quantifier (pre @ ''{'' @ q @ ''}'' @ post) (length pre) g =
     (case brace_repetition q g of
        Inr (repetition, g') \<Rightarrow> Inr (repetition, length pre + length q + 2, g')
      | Inl e \<Rightarrow> Inr (1, length pre, g))"
proof -
  let ?p = "pre @ ''{'' @ q @ ''}'' @ post"
  have "drop (length pre) ?p = (CHR ''{'' # q) @ CHR ''}'' # post" by simp
  moreover have "CHR ''}'' \<notin> set (CHR ''{'' # q)" using assms by simp
  ultimately have "index_of CHR ''}'' (drop (length pre) ?p) = Some (length (CHR ''{'' # q))"
    using index_of_first by metis
  then have find: "str_find ?p CHR ''}'' (length pre) = Some (length pre + length q + 1)"
    by (simp add: str_find_def)
  have sl: "slice ?p (length pre + 1) (length pre + length q + 1) = q"
    by (simp add: slice_def)
  have it: "item ?p (length pre) = Inr CHR ''{''"
    by (simp add: item_def nth_append)
  have len: "length pre < length ?p" by simp
  show ?thesis
    unfolding quantifier_def
    using brace_repetition_error [of q g]
    by (simp only: len if_True it bind_err_simps find option.case sl)
      (auto split: sum.splits error.splits)
qed

lemma randint_range: "randint lo hi g = Inr (k, g') \<Longrightarrow> lo \<le> k \<and> k \<le> hi"
proof -
  assume a: "randint lo hi g = Inr (k, g')"
  then have le: "lo \<le> hi" by (auto simp: randint_def split: if_splits)
  with a have k: "k = lo + int (fst (draw g) mod nat (hi - lo + 1))"
    by (simp add: randint_ok)
  have "fst (draw g) mod nat (hi - lo + 1) < nat (hi - lo + 1)"
    using le by (intro mod_less_divisor) simp
  with k le show ?thesis by linarith
qed

lemma randint_unique_draw:
  assumes "lo \<le> k" and "k \<le> hi"
  shows "\<exists>!r. r < nat (hi - lo + 1) \<and> randint lo hi (r # g) = Inr (k, g)"
proof (rule ex1I [of _ "nat (k - lo)"])
  show "nat (k - lo) < nat (hi - lo + 1) \<and> randint lo hi (nat (k - lo) # g) = Inr (k, g)"
    using assms by (simp add: randint_ok)
next
  fix r
  assume a: "r < nat (hi - lo + 1) \<and> randint lo hi (r # g) = Inr (k, g)"
  then have "r mod nat (hi - lo + 1) = r" by simp
  with a assms show "r = nat (k - lo)" by (auto simp: randint_ok)
qed

lemma quantifier_plus:
  "np < length p \<Longrightarrow> p ! np = CHR ''+'' \<Longrightarrow>
     quantifier p np g = Inr (3 + int (fst (draw g) mod 8), np + 1, snd (draw g))"
  by (simp add: quantifier_def item_def randint_ok)

lemma group_quantifier_plus:
  "np < length p \<Longrightarrow> p ! np = CHR ''+'' \<Longrightarrow>
     group_quantifier p np g = Inr (1 + int (fst (draw g) mod 3), np + 1, snd (draw g))"
  by (simp add: group_quantifier_def item_def randint_ok)

lemma quantifier_range:
  assumes "n \<le> m"
  shows "quantifier (pre @ ''{'' @ str_int n @ '','' @ str_int m @ ''}'' @ post) (length pre) g =
     Inr (n + int (fst (draw g) mod nat (m - n + 1)),
          length pre + length (str_int n) + length (str_int m) + 3, snd (draw g))"
proof -
  have "CHR ''}'' \<notin> set (str_int n @ '','' @ str_int m)"
    using str_int_chars by auto
  from quantifier_brace [OF this, of pre post g] assms show ?thesis
    by (simp add: brace_repetition_range randint_ok)
qed

lemma quantifier_open:
  "quantifier (pre @ ''{'' @ str_int n @ '',}'' @ post) (length pre) g =
     Inr (n + int (fst (draw g) mod 6), length pre + length (str_int n) + 3, snd (draw g))"
proof -
  have "CHR ''}'' \<notin> set (str_int n @ '','')"
    using str_int_chars by auto
  from quantifier_brace [OF this, of pre post g] show ?thesis
    by (simp add: brace_repetition_open randint_ok)
qed

lemma concat_singletons:
  "list_all (\<lambda>s. length s = 1 \<and> set s \<subseteq> A) ss \<Longrightarrow>
     length (concat ss) = length ss \<and> set (concat ss) \<subseteq> A"
  by (induction ss) auto

lemma digit_class_sample:
  "\<exists>s g'. generate_char_from_class ''0-9'' g = Inr (s, g') \<and> length s = 1 \<and> set s \<subseteq> set digits"
proof -
  have "fst (draw g) mod 10 \<in> {0, 1, 2, 3, 4, 5, 6, 7, 8, 9}"
    by (simp add: mod_Suc_le_divisor) arith
  then have "digits ! (fst (draw g) mod 10) \<in> set digits"
    by (auto simp: digits_def)
  then show ?thesis
    by (simp add: generate_char_from_class_def randint_ok str_int_digit)
qed

lemma open_digits_example:
  "\<exists>s g'. generate_value_from_regex ''^[0-9]{3,}$'' g = Inr (s, g')
     \<and> 3 \<le> length s \<and> length s \<le> 8 \<and> set s \<subseteq> set digits"
proof -
  let ?p = "''[0-9]{3,}''"
  let ?rep = "3 + int (fst (draw g) mod 6)"
  have s3: "str_int 3 = ''3''"
    by (simp add: str_int_def str_nat_digit digits_def)
  have q: "quantifier ?p (length ''[0-9]'') g = Inr (?rep, length ?p, snd (draw g))"
    using quantifier_open [of "''[0-9]''" 3 "[]" g]
    by (simp add: s3)
  obtain ss g' where t: "times (nat ?rep) (generate_char_from_class ''0-9'') (snd (draw g)) = Inr (ss, g')"
    and len: "length ss = nat ?rep"
    and all: "list_all (\<lambda>s. length s = 1 \<and> set s \<subseteq> set digits) ss"
    using times_total [of "generate_char_from_class ''0-9''"
        "\<lambda>s. length s = 1 \<and> set s \<subseteq> set digits" "nat ?rep" "snd (draw g)"]
      digit_class_sample by blast
  have d: "dispatch generate_value_from_regex ?p 0 g = Inr (length ?p, ss, g')"
    using q t by (simp add: dispatch_def item_def str_find_def slice_def)
  have "generate_value_from_regex ''^[0-9]{3,}$'' g = Inr (concat ss, g')"
    using d by (simp add: strip_chars_def scan_step scan_done)
  moreover have "length (concat ss) = length ss" "set (concat ss) \<subseteq> set digits"
    using concat_singletons [OF all] by simp_all
  moreover have "fst (draw g) mod 6 < 6" by simp
  then have "3 \<le> nat ?rep \<and> nat ?rep \<le> 8" by linarith
  ultimately show ?thesis using len by auto
qed

section \<open>Expectation suites as Python values\<close>

text \<open>
  The suite is what \<^verbatim>\<open>yaml.safe_load\<close> returns: \<^verbatim>\<open>None\<close>, booleans,
  integers, strings, lists and mappings, nested freely.  Mapping keys are
  strings and are pairwise different, so that \<open>map_of\<close> is the lookup.
  Floating-point numbers are not modelled.
\<close>

datatype pyval =
    PNone
  | PBool bool
  | PInt int
  | PStr string
  | PList "pyval list"
  | PDict "(string \<times> pyval) list"

text \<open>Truth value testing, as \<^verbatim>\<open>if x\<close> and \<^verbatim>\<open>not x\<close> do it.\<close>

fun truthy :: "pyval \<Rightarrow> bool" where
  "truthy PNone = False"
| "truthy (PBool b) = b"
| "truthy (PInt n) = (n \<noteq> 0)"
| "truthy (PStr s) = (s \<noteq> [])"
| "truthy (PList xs) = (xs \<noteq> [])"
| "truthy (PDict kvs) = (kvs \<noteq> [])"

text \<open>
  \<^verbatim>\<open>key in obj\<close> for a string \<open>key\<close>: key membership in a mapping,
  element membership in a list, substring test in a string; the other
  values are not iterable.
\<close>

fun py_in :: "string \<Rightarrow> pyval \<Rightarrow> error + bool" where
  "py_in key (PDict kvs) = Inr (key \<in> set (map fst kvs))"
| "py_in key (PList xs) = Inr (PStr key \<in> set xs)"
| "py_in key (PStr s) = Inr (contains s key)"
| "py_in key _ = Inl TypeError"

text \<open>\<^verbatim>\<open>obj[key]\<close> for a string \<open>key\<close>.\<close>

fun getitem :: "pyval \<Rightarrow> string \<Rightarrow> error + pyval" where
  "getitem (PDict kvs) key = (case map_of kvs key of None \<Rightarrow> Inl KeyError | Some v \<Rightarrow> Inr v)"
| "getitem _ key = Inl TypeError"

text \<open>\<^verbatim>\<open>obj.get(key, dflt)\<close>: only mappings have the method.\<close>

fun get_method :: "pyval \<Rightarrow> string \<Rightarrow> pyval \<Rightarrow> error + pyval" where
  "get_method (PDict kvs) key dflt =
     Inr (case map_of kvs key of None \<Rightarrow> dflt | Some v \<Rightarrow> v)"
| "get_method _ key dflt = Inl AttributeError"

text \<open>
  \<^verbatim>\<open>for x in obj\<close>: the elements of a list, the keys of a mapping, the
  characters of a string.
\<close>

fun iterate :: "pyval \<Rightarrow> error + pyval list" where
  "iterate (PList xs) = Inr xs"
| "iterate (PDict kvs) = Inr (map (\<lambda>kv. PStr (fst kv)) kvs)"
| "iterate (PStr s) = Inr (map (\<lambda>c. PStr [c]) s)"
| "iterate _ = Inl TypeError"

text \<open>\<^verbatim>\<open>obj.split(sep)\<close>: only strings have the method.\<close>

fun split_method :: "pyval \<Rightarrow> string \<Rightarrow> error + string list" where
  "split_method (PStr s) sep = Inr (split s sep)"
| "split_method _ sep = Inl AttributeError"

subsection \<open>\<^verbatim>\<open>str\<close> and \<^verbatim>\<open>repr\<close>\<close>

definition hex_digits :: string where
  "hex_digits = ''0123456789abcdef''"

definition is_printable :: "char \<Rightarrow> bool" where
  "is_printable c = (let n = (of_char c :: nat) in (32 \<le> n \<and> n < 127) \<or> (161 \<le> n \<and> n \<noteq> 173))"

text \<open>One character inside the quotes \<open>q\<close> of \<^verbatim>\<open>repr\<close> of a string.\<close>

definition repr_char :: "char \<Rightarrow> char \<Rightarrow> string" where
  "repr_char q c =
     (if c = q \<or> c = CHR 0x5C then [CHR 0x5C, c]
      else if c = CHR 0x09 then [CHR 0x5C, CHR ''t'']
      else if c = CHR 0x0A then [CHR 0x5C, CHR ''n'']
      else if c = CHR 0x0D then [CHR 0x5C, CHR ''r'']
      else if is_printable c then [c]
      else [CHR 0x5C, CHR ''x'', hex_digits ! (of_char c div 16), hex_digits ! (of_char c mod 16)])"

text \<open>
  \<^verbatim>\<open>repr\<close> of a string: double quotes when the string holds a single
  quote and no double quote, single quotes otherwise.
\<close>

definition repr_str :: "string \<Rightarrow> string" where
  "repr_str s =
     (let q = (if CHR 0x27 \<in> set s \<and> CHR 0x22 \<notin> set s then CHR 0x22 else CHR 0x27)
      in [q] @ concat (map (repr_char q) s) @ [q])"

text \<open>\<^verbatim>\<open>sep.join(xs)\<close>.\<close>

fun join :: "string \<Rightarrow> string list \<Rightarrow> string" where
  "join sep [] = []"
| "join sep [x] = x"
| "join sep (x # y # ys) = x @ sep @ join sep (y # ys)"

fun py_repr :: "pyval \<Rightarrow> string" where
  "py_repr PNone = ''None''"
| "py_repr (PBool b) = (if b then ''True'' else ''False'')"
| "py_repr (PInt n) = str_int n"
| "py_repr (PStr s) = repr_str s"
| "py_repr (PList xs) = ''['' @ join '', '' (map py_repr xs) @ '']''"
| "py_repr (PDict kvs) =
     ''{'' @ join '', '' (map (\<lambda>kv. repr_str (fst kv) @ '': '' @ py_repr (snd kv)) kvs) @ ''}''"

text \<open>\<^verbatim>\<open>str(v)\<close>: a string is itself, every other value is its \<^verbatim>\<open>repr\<close>.\<close>

definition py_str :: "pyval \<Rightarrow> string" where
  "py_str v = (case v of PStr s \<Rightarrow> s | _ \<Rightarrow> py_repr v)"

subsection \<open>Result dictionaries\<close>

text \<open>
  The dictionaries that the extraction functions build are association
  lists in insertion order.  Their keys are the values found under
  \<^verbatim>\<open>column\<close>: lists and mappings are unhashable, and \<^verbatim>\<open>True\<close> and
  \<^verbatim>\<open>1\<close> (as \<^verbatim>\<open>False\<close> and \<^verbatim>\<open>0\<close>) are the same key.
\<close>

fun hashable :: "pyval \<Rightarrow> bool" where
  "hashable (PList xs) = False"
| "hashable (PDict kvs) = False"
| "hashable _ = True"

fun key_eq :: "pyval \<Rightarrow> pyval \<Rightarrow> bool" where
  "key_eq (PBool b) (PInt n) = (n = (if b then 1 else 0))"
| "key_eq (PInt n) (PBool b) = (n = (if b then 1 else 0))"
| "key_eq a b = (a = b)"

fun dict_get :: "pyval \<Rightarrow> (pyval \<times> 'v) list \<Rightarrow> 'v option" where
  "dict_get k [] = None"
| "dict_get k ((k', v) # d) = (if key_eq k' k then Some v else dict_get k d)"

text \<open>
  \<^verbatim>\<open>d[k] = v\<close>: an existing key keeps its place and gets the new value, a
  new key goes to the end.
\<close>

fun dict_put :: "pyval \<Rightarrow> 'v \<Rightarrow> (pyval \<times> 'v) list \<Rightarrow> (pyval \<times> 'v) list" where
  "dict_put k v [] = [(k, v)]"
| "dict_put k v ((k', v') # d) =
     (if key_eq k' k then (k', v) # d else (k', v') # dict_put k v d)"

definition setitem :: "pyval \<Rightarrow> 'v \<Rightarrow> (pyval \<times> 'v) list \<Rightarrow> error + (pyval \<times> 'v) list" where
  "setitem k v d = (if hashable k then Inr (dict_put k v d) else Inl TypeError)"

text \<open>The inner dictionaries of hints have the fixed string keys of the source.\<close>

type_synonym hints = "(string \<times> string list) list"

fun hint_get :: "string \<Rightarrow> hints \<Rightarrow> string list option" where
  "hint_get k [] = None"
| "hint_get k ((k', v) # h) = (if k' = k then Some v else hint_get k h)"

fun hint_put :: "string \<Rightarrow> string list \<Rightarrow> hints \<Rightarrow> hints" where
  "hint_put k v [] = [(k, v)]"
| "hint_put k v ((k', v') # h) = (if k' = k then (k', v) # h else (k', v') # hint_put k v h)"

text \<open>\<^verbatim>\<open>old.update(new)\<close>.\<close>

fun hints_update :: "hints \<Rightarrow> hints \<Rightarrow> hints" where
  "hints_update old [] = old"
| "hints_update old ((k, v) # new) = hints_update (hint_put k v old) new"

section \<open>The constraint extractor\<close>

text \<open>
  The guard that opens the four extraction functions:
  \<^verbatim>\<open>not expectations or "expectations" not in expectations\<close>.
\<close>

definition no_expectations :: "pyval \<Rightarrow> error + bool" where
  "no_expectations expectations =
     (if \<not> truthy expectations then Inr True
      else bind_err (py_in ''expectations'' expectations) (\<lambda>present. Inr (\<not> present)))"

text \<open>\<^verbatim>\<open>extract_value_sets\<close>, lines 49 to 74: the loop, then the function.\<close>

fun value_sets_loop ::
  "pyval list \<Rightarrow> (pyval \<times> string list) list \<Rightarrow> error + (pyval \<times> string list) list" where
  "value_sets_loop [] value_sets = Inr value_sets"
| "value_sets_loop (expectation # rest) value_sets =
     bind_err (get_method expectation ''type'' PNone) (\<lambda>ty.
       if ty = PStr ''expect_column_values_to_be_in_set'' then
         bind_err (get_method expectation ''kwargs'' (PDict [])) (\<lambda>kwargs.
         bind_err (get_method kwargs ''column'' PNone) (\<lambda>column.
         bind_err (get_method kwargs ''value_set'' (PList [])) (\<lambda>value_set.
           if truthy column \<and> truthy value_set then
             bind_err (iterate value_set) (\<lambda>vs.
             bind_err (setitem column (map py_str vs) value_sets) (\<lambda>value_sets'.
               value_sets_loop rest value_sets'))
           else value_sets_loop rest value_sets)))
       else value_sets_loop rest value_sets)"

definition extract_value_sets :: "pyval \<Rightarrow> error + (pyval \<times> string list) list" where
  "extract_value_sets expectations =
     bind_err (no_expectations expectations) (\<lambda>none.
       if none then Inr []
       else bind_err (getitem expectations ''expectations'') (\<lambda>exps.
            bind_err (iterate exps) (\<lambda>es. value_sets_loop es [])))"

text \<open>
  \<^verbatim>\<open>extract_regex_patterns\<close> (lines 224 to 248) and
  \<^verbatim>\<open>extract_strftime_formats\<close> (lines 266 to 293) are the same text up to
  the expectation type and the name of the keyword; \<open>kwarg_loop\<close> is their
  loop.
\<close>

fun kwarg_loop ::
  "string \<Rightarrow> string \<Rightarrow> pyval list \<Rightarrow> (pyval \<times> pyval) list \<Rightarrow> error + (pyval \<times> pyval) list" where
  "kwarg_loop ty_name kw [] found = Inr found"
| "kwarg_loop ty_name kw (expectation # rest) found =
     bind_err (get_method expectation ''type'' PNone) (\<lambda>ty.
       if ty = PStr ty_name then
         bind_err (get_method expectation ''kwargs'' (PDict [])) (\<lambda>kwargs.
         bind_err (get_method kwargs ''column'' PNone) (\<lambda>column.
         bind_err (get_method kwargs kw PNone) (\<lambda>v.
           if truthy column \<and> truthy v then
             bind_err (setitem column v found) (\<lambda>found'. kwarg_loop ty_name kw rest found')
           else kwarg_loop ty_name kw rest found)))
       else kwarg_loop ty_name kw rest found)"

definition extract_kwarg :: "string \<Rightarrow> string \<Rightarrow> pyval \<Rightarrow> error + (pyval \<times> pyval) list" where
  "extract_kwarg ty_name kw expectations =
     bind_err (no_expectations expectations) (\<lambda>none.
       if none then Inr []
       else bind_err (getitem expectations ''expectations'') (\<lambda>exps.
            bind_err (iterate exps) (\<lambda>es. kwarg_loop ty_name kw es [])))"

definition extract_regex_patterns :: "pyval \<Rightarrow> error + (pyval \<times> pyval) list" where
  "extract_regex_patterns = extract_kwarg ''expect_column_values_to_match_regex'' ''regex''"

definition extract_strftime_formats :: "pyval \<Rightarrow> error + (pyval \<times> pyval) list" where
  "extract_strftime_formats =
     extract_kwarg ''expect_column_values_to_match_strftime_format'' ''strftime_format''"

text \<open>\<^verbatim>\<open>_extract_examples_from_description\<close>, lines 129 to 158.\<close>

definition extract_examples_from_description :: "pyval \<Rightarrow> error + string list" where
  "extract_examples_from_description description =
     bind_err (py_in ''Ex:'' description) (\<lambda>ex.
     bind_err (if ex then Inr True else py_in ''Example:'' description) (\<lambda>marked.
       if marked then
         bind_err (split_method description ''Ex:'') (\<lambda>parts.
         bind_err (if length parts < 2 then split_method description ''Example:''
                   else Inr parts) (\<lambda>parts.
           if length parts \<ge> 2 then
             bind_err (item parts 1) (\<lambda>part1.
             bind_err (item (split part1 ''.'') 0) (\<lambda>sentence.
               let example_text = strip sentence;
                   vals = map strip (split example_text '','')
               in Inr (filter (\<lambda>v. v \<noteq> [] \<and> length v \<le> 50) vals)))
           else Inr []))
       else Inr []))"

text \<open>
  The hints of one expectation, lines 105 to 120.  \<open>list_hint\<close> is the
  test \<^verbatim>\<open>key in meta and isinstance(meta[key], list)\<close> with its
  assignment, written twice in the source, for \<^verbatim>\<open>lob\<close> and \<^verbatim>\<open>states\<close>.
\<close>

definition list_hint :: "string \<Rightarrow> pyval \<Rightarrow> hints \<Rightarrow> error + hints" where
  "list_hint key meta hints =
     bind_err (py_in key meta) (\<lambda>present.
       if present then
         bind_err (getitem meta key) (\<lambda>v.
           case v of
             PList xs \<Rightarrow> Inr (hint_put key (map py_str xs) hints)
           | _ \<Rightarrow> Inr hints)
       else Inr hints)"

definition expectation_hints :: "pyval \<Rightarrow> error + hints" where
  "expectation_hints meta =
     bind_err (list_hint ''lob'' meta []) (\<lambda>hints.
     bind_err (list_hint ''states'' meta hints) (\<lambda>hints.
     bind_err (get_method meta ''description'' (PStr [])) (\<lambda>description.
       if truthy description then
         bind_err (extract_examples_from_description description) (\<lambda>examples.
           Inr (hint_put ''description_examples'' examples hints))
       else Inr hints)))"

text \<open>
  Lines 122 to 125: \<^verbatim>\<open>metadata_hints[column].update(hints)\<close>, after an
  empty entry has been made for a new column.
\<close>

definition merge_hints ::
  "pyval \<Rightarrow> hints \<Rightarrow> (pyval \<times> hints) list \<Rightarrow> error + (pyval \<times> hints) list" where
  "merge_hints column hints metadata_hints =
     (if \<not> hashable column then Inl TypeError
      else Inr (dict_put column
             (hints_update (case dict_get column metadata_hints of None \<Rightarrow> [] | Some h \<Rightarrow> h)
                hints)
             metadata_hints))"

text \<open>\<^verbatim>\<open>extract_metadata_hints\<close>, lines 76 to 127.\<close>

fun hints_loop :: "pyval list \<Rightarrow> (pyval \<times> hints) list \<Rightarrow> error + (pyval \<times> hints) list" where
  "hints_loop [] metadata_hints = Inr metadata_hints"
| "hints_loop (expectation # rest) metadata_hints =
     bind_err (get_method expectation ''kwargs'' (PDict [])) (\<lambda>kwargs.
     bind_err (get_method kwargs ''column'' PNone) (\<lambda>column.
     bind_err (get_method expectation ''meta'' (PDict [])) (\<lambda>meta.
       if \<not> truthy column then hints_loop rest metadata_hints
       else
         bind_err (expectation_hints meta) (\<lambda>hints.
           if hints \<noteq> [] then
             bind_err (merge_hints column hints metadata_hints) (\<lambda>metadata_hints'.
               hints_loop rest metadata_hints')
           else hints_loop rest metadata_hints))))"

definition extract_metadata_hints :: "pyval \<Rightarrow> error + (pyval \<times> hints) list" where
  "extract_metadata_hints expectations =
     bind_err (no_expectations expectations) (\<lambda>none.
       if none then Inr []
       else bind_err (getitem expectations ''expectations'') (\<lambda>exps.
            bind_err (iterate exps) (\<lambda>es. hints_loop es [])))"

subsection \<open>Placeholder values\<close>

text \<open>
  \<^verbatim>\<open>s.upper()\<close> and \<^verbatim>\<open>s.lower()\<close> on strings of code points below 256,
  as lists of code points.  Upper-casing leaves that range and is not one
  to one on characters: besides the letters \<^verbatim>\<open>a\<close> to \<^verbatim>\<open>z\<close> and the
  accented letters U+00E0 to U+00FE (the division sign U+00F7 apart), which
  move down by 32, the micro sign U+00B5 becomes U+039C, the sharp s U+00DF
  becomes the two letters \<^verbatim>\<open>SS\<close>, and U+00FF becomes U+0178.
  Lower-casing moves \<^verbatim>\<open>A\<close> to \<^verbatim>\<open>Z\<close> and U+00C0 to U+00DE (the
  multiplication sign U+00D7 apart) up by 32.
\<close>

definition code_points :: "string \<Rightarrow> nat list" where
  "code_points s = map of_char s"

definition upper_char :: "char \<Rightarrow> nat list" where
  "upper_char c =
     (let n = (of_char c :: nat) in
      if 97 \<le> n \<and> n \<le> 122 then [n - 32]
      else if n = 181 then [924]
      else if n = 223 then [83, 83]
      else if 224 \<le> n \<and> n \<le> 254 \<and> n \<noteq> 247 then [n - 32]
      else if n = 255 then [376]
      else [n])"

definition lower_char :: "char \<Rightarrow> nat" where
  "lower_char c =
     (let n = (of_char c :: nat) in
      if (65 \<le> n \<and> n \<le> 90) \<or> (192 \<le> n \<and> n \<le> 222 \<and> n \<noteq> 215) then n + 32
      else n)"

definition upper :: "string \<Rightarrow> nat list" where
  "upper s = concat (map upper_char s)"

definition lower :: "string \<Rightarrow> nat list" where
  "lower s = map lower_char s"

text \<open>
  Two notions for the comparison of the two case conversions: the
  upper-casing of one character that stays one character below 256, and the
  strings of ASCII characters in which no two neighbours are both the
  letter S in either case.
\<close>

definition simple_upper :: "char \<Rightarrow> nat" where
  "simple_upper c =
     (let n = (of_char c :: nat) in
      if (97 \<le> n \<and> n \<le> 122) \<or> (224 \<le> n \<and> n \<le> 254 \<and> n \<noteq> 247) then n - 32
      else n)"

fun plain :: "string \<Rightarrow> bool" where
  "plain [] = True"
| "plain [a] = ((of_char a :: nat) < 128)"
| "plain (a # b # p) =
     ((of_char a :: nat) < 128 \<and> \<not> (simple_upper a = 83 \<and> simple_upper b = 83) \<and> plain (b # p))"

text \<open>
  \<^verbatim>\<open>s.split()\<close>: the maximal runs of characters that are not white
  space.  The first argument is the run being collected, reversed.
\<close>

fun split_ws_acc :: "string \<Rightarrow> string \<Rightarrow> string list" where
  "split_ws_acc acc [] = (if acc = [] then [] else [rev acc])"
| "split_ws_acc acc (c # cs) =
     (if is_space c then
        (if acc = [] then split_ws_acc [] cs else rev acc # split_ws_acc [] cs)
      else split_ws_acc (c # acc) cs)"

definition split_ws :: "string \<Rightarrow> string list" where
  "split_ws s = split_ws_acc [] s"

definition suspicious_patterns :: "string list" where
  "suspicious_patterns =
     [''CLIENT MBRID'', ''MEMBER_ID'', ''FIRST NAME'', ''LAST NAME'', ''MemberLastName'',
      ''MemberFirstName'', ''CHASE LOAD DATE'', ''LOAD DATE'', ''DATE'']"

text \<open>\<^verbatim>\<open>_looks_like_column_name\<close>, lines 191 to 222.\<close>

definition looks_like_column_name :: "string \<Rightarrow> bool" where
  "looks_like_column_name v =
     (if v = [] \<or> length (strip v) = 0 then True
      else if upper v \<in> set (map upper suspicious_patterns) then True
      else CHR ''_'' \<in> set v \<and> upper v = code_points v \<and> length (split_ws v) \<le> 4)"

text \<open>\<^verbatim>\<open>get_constraints_for_column\<close>, lines 160 to 189.\<close>

definition get_constraints_for_column :: "pyval \<Rightarrow> string \<Rightarrow> error + string list option" where
  "get_constraints_for_column expectations column_name =
     bind_err (extract_value_sets expectations) (\<lambda>value_sets.
       case dict_get (PStr column_name) value_sets of
         Some vals \<Rightarrow>
           (let filtered_values = filter (\<lambda>v. \<not> looks_like_column_name v) vals
            in if filtered_values \<noteq> [] then Inr (Some filtered_values) else Inr None)
       | None \<Rightarrow> Inr None)"

text \<open>
  What the specification says of a placeholder: the value is empty or blank,
  or equals a denylist entry when case is ignored (the two lower-casings
  are equal), or it holds an underscore, is its own upper-casing, and splits
  into at most four tokens.
\<close>

definition placeholder_spec :: "string \<Rightarrow> bool" where
  "placeholder_spec v \<longleftrightarrow>
     (v = [] \<or> list_all is_space v)
     \<or> list_ex (\<lambda>p. lower v = lower p) suspicious_patterns
     \<or> (CHR ''_'' \<in> set v \<and> code_points v = upper v \<and> length (split_ws v) \<le> 4)"

section \<open>Properties of the constraint extractor\<close>

subsection \<open>Suites without a list of expectations\<close>

lemma no_expectations_falsy: "\<not> truthy e \<Longrightarrow> no_expectations e = Inr True"
  by (simp add: no_expectations_def)

lemma no_expectations_missing:
  "''expectations'' \<notin> set (map fst kvs) \<Longrightarrow> no_expectations (PDict kvs) = Inr True"
  by (simp add: no_expectations_def)

lemma no_expectations_present:
  "map_of kvs ''expectations'' = Some v \<Longrightarrow> no_expectations (PDict kvs) = Inr False"
proof -
  assume a: "map_of kvs ''expectations'' = Some v"
  then have "(''expectations'', v) \<in> set kvs" by (rule map_of_SomeD)
  then have "''expectations'' \<in> fst ` set kvs" by force
  moreover from a have "kvs \<noteq> []" by auto
  ultimately show ?thesis by (simp add: no_expectations_def)
qed

lemmas extract_defs = extract_value_sets_def extract_regex_patterns_def
  extract_strftime_formats_def extract_kwarg_def extract_metadata_hints_def

lemma extract_none:
  assumes "no_expectations e = Inr True"
  shows "extract_value_sets e = Inr []" and "extract_regex_patterns e = Inr []"
    and "extract_strftime_formats e = Inr []" and "extract_metadata_hints e = Inr []"
  using assms by (simp_all add: extract_defs)

lemma extract_not_iterable:
  assumes "map_of kvs ''expectations'' = Some v" and "iterate v = Inl err"
  shows "extract_value_sets (PDict kvs) = Inl err"
    and "extract_regex_patterns (PDict kvs) = Inl err"
    and "extract_strftime_formats (PDict kvs) = Inl err"
    and "extract_metadata_hints (PDict kvs) = Inl err"
  using assms by (simp_all add: extract_defs no_expectations_present)

lemma extract_string:
  assumes "map_of kvs ''expectations'' = Some (PStr (c # cs))"
  shows "extract_value_sets (PDict kvs) = Inl AttributeError"
    and "extract_regex_patterns (PDict kvs) = Inl AttributeError"
    and "extract_strftime_formats (PDict kvs) = Inl AttributeError"
    and "extract_metadata_hints (PDict kvs) = Inl AttributeError"
  using assms by (simp_all add: extract_defs no_expectations_present)

subsection \<open>Merging hints\<close>

lemma key_eq_refl [simp]: "key_eq a a"
  by (cases a) simp_all

lemma key_eq_sym: "key_eq a b = key_eq b a"
  by (cases a; cases b) auto

lemma key_eq_euclid: "key_eq k a \<Longrightarrow> key_eq k b \<Longrightarrow> key_eq b a"
  by (cases k; cases a; cases b) (auto split: if_splits)

lemma dict_get_put_same: "dict_get k (dict_put k v d) = Some v"
proof (induction d)
  case Nil
  show ?case by simp
next
  case (Cons kv d)
  obtain k' v' where "kv = (k', v')" by (cases kv)
  with Cons show ?case by (simp add: key_eq_sym [of k' k])
qed

lemma dict_get_put_other:
  "\<not> key_eq c k \<Longrightarrow> dict_get c (dict_put k v d) = dict_get c d"
proof (induction d)
  case Nil
  then show ?case by (simp add: key_eq_sym [of k c])
next
  case (Cons kv d)
  obtain k' v' where kv: "kv = (k', v')" by (cases kv)
  show ?case
  proof (cases "key_eq k' k")
    case True
    with Cons.prems have "\<not> key_eq k' c"
      using key_eq_euclid [of k' k c] by blast
    with True kv show ?thesis by simp
  next
    case False
    with Cons kv show ?thesis by simp
  qed
qed

lemma hint_get_put: "hint_get k (hint_put k' v h) = (if k = k' then Some v else hint_get k h)"
  by (induction h) auto

lemma hint_put_keys: "fst ` set (hint_put k v h) = insert k (fst ` set h)"
proof (induction h)
  case Nil
  show ?case by simp
next
  case (Cons kv h)
  obtain k' v' where kv: "kv = (k', v')" by (cases kv)
  show ?case
  proof (cases "k' = k")
    case True
    with kv show ?thesis by auto
  next
    case False
    with Cons kv show ?thesis by auto
  qed
qed

lemma hint_put_distinct: "distinct (map fst h) \<Longrightarrow> distinct (map fst (hint_put k v h))"
proof (induction h)
  case Nil
  show ?case by simp
next
  case (Cons kv h)
  obtain k' v' where kv: "kv = (k', v')" by (cases kv)
  show ?case
  proof (cases "k' = k")
    case True
    with Cons kv show ?thesis by simp
  next
    case False
    with Cons kv show ?thesis by (simp add: hint_put_keys)
  qed
qed

lemma hint_get_None: "hint_get k h = None \<longleftrightarrow> k \<notin> fst ` set h"
  by (induction h) (auto split: if_splits)

lemma hint_get_update:
  "distinct (map fst new) \<Longrightarrow>
     hint_get k (hints_update old new) =
       (case hint_get k new of Some v \<Rightarrow> Some v | None \<Rightarrow> hint_get k old)"
proof (induction new arbitrary: old)
  case Nil
  show ?case by simp
next
  case (Cons kv new)
  obtain k' v' where kv: "kv = (k', v')" by (cases kv)
  with Cons.prems have d: "distinct (map fst new)" and n: "k' \<notin> fst ` set new" by auto
  from n have "hint_get k' new = None" by (simp add: hint_get_None)
  with Cons.IH [OF d, of "hint_put k' v' old"] kv show ?case
    by (auto simp: hint_get_put split: option.splits)
qed

lemma list_hint_result:
  assumes "list_hint key meta h = Inr h'"
  shows "h' = h \<or> (\<exists>xs. h' = hint_put key xs h)"
proof (cases "py_in key meta")
  case (Inl e)
  with assms show ?thesis by (simp add: list_hint_def)
next
  case present: (Inr present)
  show ?thesis
  proof (cases present)
    case False
    with assms present show ?thesis by (simp add: list_hint_def)
  next
    case True
    show ?thesis
    proof (cases "getitem meta key")
      case (Inl e)
      with assms present True show ?thesis by (simp add: list_hint_def)
    next
      case (Inr v)
      with assms present True show ?thesis
        by (cases v) (auto simp: list_hint_def)
    qed
  qed
qed

lemma list_hint_distinct:
  "list_hint key meta h = Inr h' \<Longrightarrow> distinct (map fst h) \<Longrightarrow> distinct (map fst h')"
  using list_hint_result hint_put_distinct by blast

lemma expectation_hints_distinct:
  assumes "expectation_hints meta = Inr hints"
  shows "distinct (map fst hints)"
proof -
  from assms obtain h1 h2 where h1: "list_hint ''lob'' meta [] = Inr h1"
    and h2: "list_hint ''states'' meta h1 = Inr h2"
    and rest: "hints = h2 \<or> (\<exists>ex. hints = hint_put ''description_examples'' ex h2)"
    by (auto simp: expectation_hints_def bind_err_Inr split: if_splits)
  from h1 have "distinct (map fst h1)" using list_hint_distinct by fastforce
  with h2 have "distinct (map fst h2)" using list_hint_distinct by blast
  with rest show ?thesis using hint_put_distinct by blast
qed

lemma hints_loop_append:
  "hints_loop (es @ [e]) acc = bind_err (hints_loop es acc) (\<lambda>m. hints_loop [e] m)"
proof (induction es arbitrary: acc)
  case Nil
  show ?case by simp
next
  case (Cons x es)
  show ?case
    by (simp add: Cons bind_err_def split: sum.splits)
qed

lemma extract_metadata_hints_list:
  "extract_metadata_hints (PDict [(''expectations'', PList es)]) = hints_loop es []"
  by (simp add: extract_metadata_hints_def no_expectations_def)

lemma hints_loop_last:
  assumes "get_method e ''kwargs'' (PDict []) = Inr kwargs"
    and "get_method kwargs ''column'' PNone = Inr column"
    and "truthy column" and "hashable column"
    and "get_method e ''meta'' (PDict []) = Inr meta"
    and "expectation_hints meta = Inr hints" and "hints \<noteq> []"
  shows "hints_loop [e] m =
     Inr (dict_put column
            (hints_update (case dict_get column m of None \<Rightarrow> [] | Some h \<Rightarrow> h) hints) m)"
  using assms by (simp add: merge_hints_def)

subsection \<open>Placeholders\<close>

lemma lower_simple_upper:
  "map lower_char a = map lower_char b \<longleftrightarrow> map simple_upper a = map simple_upper b"
proof -
  define L :: "nat \<Rightarrow> nat" where
    "L n = (if (65 \<le> n \<and> n \<le> 90) \<or> (192 \<le> n \<and> n \<le> 222 \<and> n \<noteq> 215) then n + 32 else n)"
    for n
  define U :: "nat \<Rightarrow> nat" where
    "U n = (if (97 \<le> n \<and> n \<le> 122) \<or> (224 \<le> n \<and> n \<le> 254 \<and> n \<noteq> 247) then n - 32 else n)"
    for n
  have UL: "U (L n) = U n" for n by (simp add: U_def L_def)
  have LU: "L (U n) = L n" for n by (auto simp: U_def L_def)
  have LU_iff: "L n = L m \<longleftrightarrow> U n = U m" for n m by (metis UL LU)
  have "lower_char c = L (of_char c)" and "simple_upper c = U (of_char c)" for c
    by (simp_all add: lower_char_def simple_upper_def L_def U_def Let_def)
  then have l: "lower_char c = lower_char d \<longleftrightarrow> simple_upper c = simple_upper d" for c d
    by (simp only: LU_iff)
  show ?thesis
  proof (induction a arbitrary: b)
    case Nil
    show ?case by simp
  next
    case (Cons c a)
    then show ?case by (cases b) (simp_all add: l)
  qed
qed

lemma upper_char_nonempty: "upper_char c \<noteq> []"
  by (simp add: upper_char_def Let_def)

lemma upper_char_ascii:
  "(of_char a :: nat) < 128 \<Longrightarrow> upper_char a = [simple_upper a] \<and> simple_upper a < 128"
  by (auto simp: upper_char_def simple_upper_def Let_def)

lemma simple_upper_ascii: "simple_upper c < 128 \<Longrightarrow> (of_char c :: nat) < 128"
  by (auto simp: simple_upper_def Let_def split: if_splits)

lemma upper_char_cases:
  "upper_char c = [simple_upper c] \<or> upper_char c = [924] \<or> upper_char c = [83, 83]
     \<or> upper_char c = [376]"
  by (auto simp: upper_char_def simple_upper_def Let_def)

lemma plain_Cons: "plain (a # p) \<Longrightarrow> (of_char a :: nat) < 128 \<and> plain p"
  by (cases p) simp_all

lemma upper_Nil_iff: "upper p = [] \<longleftrightarrow> p = []"
  by (cases p) (simp_all add: upper_def upper_char_nonempty)

lemma upper_Cons: "upper (c # cs) = upper_char c @ upper cs"
  by (simp add: upper_def)

lemma upper_eq_plain:
  "plain p \<Longrightarrow> upper v = upper p \<Longrightarrow> map simple_upper v = map simple_upper p"
proof (induction v arbitrary: p)
  case Nil
  then show ?case by (simp add: upper_Nil_iff [symmetric] upper_def)
next
  case (Cons c cs)
  from Cons.prems(2) have "p \<noteq> []"
    by (auto simp: upper_def upper_char_nonempty)
  then obtain a p' where p: "p = a # p'" by (cases p) auto
  with Cons.prems(1) have a: "(of_char a :: nat) < 128" and p': "plain p'"
    using plain_Cons by blast+
  from a have ua: "upper_char a = [simple_upper a]" and sa: "simple_upper a < 128"
    using upper_char_ascii by blast+
  from Cons.prems(2) p ua have eq: "upper_char c @ upper cs = simple_upper a # upper p'"
    by (simp add: upper_Cons)
  consider "upper_char c = [simple_upper c]" | "upper_char c = [924]"
    | "upper_char c = [83, 83]" | "upper_char c = [376]"
    using upper_char_cases by blast
  then show ?case
  proof cases
    case 1
    with eq have "simple_upper c = simple_upper a" and "upper cs = upper p'" by simp_all
    with Cons.IH [OF p'] p show ?thesis by simp
  next
    case 2
    with eq sa show ?thesis by simp
  next
    case 3
    with eq have s1: "simple_upper a = 83" and rest: "83 # upper cs = upper p'" by simp_all
    from rest have "p' \<noteq> []" by (auto simp: upper_def)
    then obtain b p'' where p'': "p' = b # p''" by (cases p') auto
    with p' have "(of_char b :: nat) < 128" using plain_Cons by blast
    then have "upper_char b = [simple_upper b]" using upper_char_ascii by blast
    with rest p'' have "simple_upper b = 83" by (simp add: upper_Cons)
    with s1 Cons.prems(1) p p'' show ?thesis by simp
  next
    case 4
    with eq sa show ?thesis by simp
  qed
qed

lemma simple_upper_eq_plain:
  "plain p \<Longrightarrow> map simple_upper v = map simple_upper p \<Longrightarrow> upper v = upper p"
proof (induction v arbitrary: p)
  case Nil
  then show ?case by simp
next
  case (Cons c cs)
  from Cons.prems(2) obtain a p' where p: "p = a # p'"
    and c: "simple_upper c = simple_upper a"
    and rest: "map simple_upper cs = map simple_upper p'"
    by (cases p) auto
  from Cons.prems(1) p have a: "(of_char a :: nat) < 128" and p': "plain p'"
    using plain_Cons by blast+
  from a have ua: "upper_char a = [simple_upper a]" and sa: "simple_upper a < 128"
    using upper_char_ascii by blast+
  from sa c have "(of_char c :: nat) < 128" by (simp add: simple_upper_ascii)
  then have "upper_char c = [simple_upper c]" using upper_char_ascii by blast
  with ua c Cons.IH [OF p' rest] p show ?case by (simp add: upper_Cons)
qed

lemma upper_eq_iff_lower_eq: "plain p \<Longrightarrow> upper v = upper p \<longleftrightarrow> lower v = lower p"
  using upper_eq_plain [of p v] simple_upper_eq_plain [of p v] lower_simple_upper [of v p]
  by (auto simp: lower_def)

lemma suspicious_patterns_plain: "p \<in> set suspicious_patterns \<Longrightarrow> plain p"
  by (auto simp: suspicious_patterns_def simple_upper_def)

lemma strip_empty_iff: "strip v = [] \<longleftrightarrow> list_all is_space v"
proof
  assume "list_all is_space v"
  then have d: "dropWhile is_space v = []" by (simp only: dropWhile_eq_Nil_conv list_all_iff)
  show "strip v = []" unfolding strip_def d by simp
next
  assume "strip v = []"
  then have "dropWhile is_space (rev (dropWhile is_space v)) = []" by (simp add: strip_def)
  then have "\<forall>x \<in> set (rev (dropWhile is_space v)). is_space x"
    by (simp only: dropWhile_eq_Nil_conv)
  then have all: "\<forall>x \<in> set (dropWhile is_space v). is_space x" by (simp only: set_rev)
  have "dropWhile is_space v = []"
  proof (rule ccontr)
    assume ne: "dropWhile is_space v \<noteq> []"
    then have "\<not> is_space (hd (dropWhile is_space v))" by (rule hd_dropWhile)
    moreover from ne have "hd (dropWhile is_space v) \<in> set (dropWhile is_space v)"
      by (rule hd_in_set)
    ultimately show False using all by blast
  qed
  then have "\<forall>x \<in> set v. is_space x" by (simp only: dropWhile_eq_Nil_conv)
  then show "list_all is_space v" by (simp only: list_all_iff)
qed

lemma looks_like_column_name_spec: "looks_like_column_name v = placeholder_spec v"
proof -
  have "upper v \<in> set (map upper suspicious_patterns)
      \<longleftrightarrow> list_ex (\<lambda>p. lower v = lower p) suspicious_patterns"
    using suspicious_patterns_plain upper_eq_iff_lower_eq
    by (auto simp: list_ex_iff)
  moreover have "upper v = code_points v \<longleftrightarrow> code_points v = upper v" by auto
  ultimately show ?thesis
    unfolding looks_like_column_name_def placeholder_spec_def
    by (auto simp: strip_empty_iff)
qed

lemmas extractor_eval = extract_defs no_expectations_def setitem_def py_str_def merge_hints_def
  expectation_hints_def list_hint_def extract_examples_from_description_def

section \<open>Results\<close>

text \<open>
  C4.  The claim says that a class body with several range markers, such as
  \<^verbatim>\<open>A-Za-z0-9\<close>, is sampled from the combined pool of letters and digits.
  The source returns at the first marker it finds: for \<^verbatim>\<open>A-Za-z0-9\<close> the
  result is always \<^verbatim>\<open>random.choice(string.ascii_uppercase)\<close>, so no
  lower-case letter and no digit is ever produced.
\<close>

theorem generate_char_from_class_combined_is_uppercase:
  "generate_char_from_class ''A-Za-z0-9'' g =
     Inr ([ascii_uppercase ! (fst (draw g) mod 26)], snd (draw g))"
  by (simp add: generate_char_from_class_def choice_def bind_err_def ascii_uppercase_def
      split: prod.split)

text \<open>
  C1.  \<^verbatim>\<open>generate_value_from_regex\<close> terminates on every pattern.  Each
  pass through the loop body that returns moves the cursor forward by at
  least one position and not beyond the end of the pattern, whichever branch
  is taken; the text of a group, on which the method calls itself, is
  strictly shorter than the pattern; and a budget of \<open>length p\<close> passes
  through the loop body is enough for the loop to return its result.
\<close>

theorem generate_value_from_regex_terminates:
  "(i < length p \<longrightarrow> dispatch self p i g = Inr (i', out, g') \<longrightarrow> i < i' \<and> i' \<le> length p)
   \<and> (str_find p CHR '')'' i = Some e \<longrightarrow> length (slice p (i + 1) e) < length p)
   \<and> scan_fuel (length p) (strip_chars ''^$'' p) 0 [] g
       = Some (generate_value_from_regex p g)"
proof (intro conjI impI)
  assume "i < length p" and "dispatch self p i g = Inr (i', out, g')"
  then show "i < i'" and "i' \<le> length p"
    using dispatch_cursor by blast+
next
  assume "str_find p CHR '')'' i = Some e"
  then show "length (slice p (i + 1) e) < length p"
    by (rule group_content_shorter)
next
  have "length (strip_chars ''^$'' p) - 0 \<le> length p"
    using length_strip_chars [of "''^$''" p] by simp
  then have "scan_fuel (length p) (strip_chars ''^$'' p) 0 [] g
      = Some (scan (strip_chars ''^$'' p) 0 [] g)"
    by (rule scan_fuel_enough)
  then show "scan_fuel (length p) (strip_chars ''^$'' p) 0 [] g
      = Some (generate_value_from_regex p g)"
    by simp
qed

theorem generate_value_from_regex_terminates_witness:
  "0 < length ''(a)b''
   \<and> dispatch generate_value_from_regex ''(a)b'' 0 [] = Inr (3, [''a''], [])
   \<and> (0::nat) < 3 \<and> 3 \<le> length ''(a)b''
   \<and> str_find ''(a)b'' CHR '')'' 0 = Some 2
   \<and> length (slice ''(a)b'' (0 + 1) 2) < length ''(a)b''
   \<and> scan_fuel (length ''(a)b'') (strip_chars ''^$'' ''(a)b'') 0 [] []
       = Some (generate_value_from_regex ''(a)b'' [])"
  using generate_value_from_regex_terminates
    [of 0 "''(a)b''" generate_value_from_regex "[]" 3 "[''a'']" "[]" 2]
  by (simp add: engine_eval)

text \<open>
  C2.  \<^verbatim>\<open>generate_value_from_regex\<close> returns a string on every input
  and every state of the random source; no exception leaves it.  This covers
  the malformed patterns: an unterminated bracket or group, braces whose
  bounds are not integers or are inverted, and a trailing backslash.
\<close>

theorem generate_value_from_regex_never_raises:
  "\<exists>v g'. generate_value_from_regex p g = Inr (v, g')"
  by (rule generate_total)




text \<open>
  C5, as stated, fails: for the pattern \<^verbatim>\<open>(AB){3}\<close> the generator returns
  \<^verbatim>\<open>AB{3}\<close>: the sample of the group once, followed by the text of the
  braces.
\<close>

theorem group_brace_counterexample:
  "generate_value_from_regex ''(AB){3}'' [] = Inr (''AB{3}'', [])
   \<and> ''AB{3}'' \<noteq> ''ABABAB''"
  by (simp add: engine_eval)

text \<open>
  C5, amended.  After a parenthesized group only \<^verbatim>\<open>+\<close> and \<^verbatim>\<open>?\<close>
  are read as quantifiers.  An opening brace after the group leaves the
  repetition count at 1 and the cursor on the brace, so the sample of the
  group is emitted once and the brace is scanned as a literal character.  For
  \<^verbatim>\<open>(AB){3}\<close> the result is \<^verbatim>\<open>AB{3}\<close>, whatever the random source.
\<close>

theorem group_brace_amended:
  "(np < length p \<longrightarrow> p ! np = CHR ''{'' \<longrightarrow>
      group_quantifier p np g = Inr (1, np, g)
      \<and> dispatch self p np g = Inr (np + 1, [''{''], g))
   \<and> generate_value_from_regex ''(AB){3}'' g = Inr (''AB{3}'', g)"
proof (intro conjI impI)
  assume "np < length p" and "p ! np = CHR ''{''"
  then show "group_quantifier p np g = Inr (1, np, g)"
    and "dispatch self p np g = Inr (np + 1, [''{''], g)"
    using dispatch_literal [of np p self g]
    by (simp_all add: group_quantifier_def item_def)
next
  show "generate_value_from_regex ''(AB){3}'' g = Inr (''AB{3}'', g)"
    by (simp add: engine_eval)
qed

theorem group_brace_amended_witness:
  "(4::nat) < length ''(AB){3}'' \<and> ''(AB){3}'' ! 4 = CHR ''{''
   \<and> group_quantifier ''(AB){3}'' 4 [7] = Inr (1, 4, [7])
   \<and> dispatch generate_value_from_regex ''(AB){3}'' 4 [7] = Inr (5, [''{''], [7])
   \<and> generate_value_from_regex ''(AB){3}'' [7] = Inr (''AB{3}'', [7])"
  using group_brace_amended [of 4 "''(AB){3}''" "[7]" generate_value_from_regex]
  by simp

text \<open>
  C10.  The backslash is no general escape character.  When the cursor is on
  a backslash that is the last character of the pattern, or that is followed
  by a character other than \<^verbatim>\<open>.\<close> and \<^verbatim>\<open>d\<close>, the loop body appends
  the backslash itself to the output and moves the cursor to the next
  character.  The pattern \<^verbatim>\<open>\w\<close> gives the two characters \<^verbatim>\<open>\w\<close>,
  and the pattern that is one backslash gives that backslash.
\<close>

theorem backslash_is_literal:
  "(i < length p \<longrightarrow> p ! i = CHR 0x5C \<longrightarrow>
      (i + 1 < length p \<longrightarrow> p ! (i + 1) \<noteq> CHR ''.'' \<and> p ! (i + 1) \<noteq> CHR ''d'') \<longrightarrow>
      dispatch self p i g = Inr (i + 1, [[CHR 0x5C]], g))
   \<and> generate_value_from_regex [CHR 0x5C, CHR ''w''] g = Inr ([CHR 0x5C, CHR ''w''], g)
   \<and> generate_value_from_regex [CHR 0x5C] g = Inr ([CHR 0x5C], g)"
proof -
  have "dispatch self p i g = Inr (i + 1, [[CHR 0x5C]], g)"
    if "i < length p" "p ! i = CHR 0x5C"
      "i + 1 < length p \<longrightarrow> p ! (i + 1) \<noteq> CHR ''.'' \<and> p ! (i + 1) \<noteq> CHR ''d''"
    using dispatch_literal [of i p self g] that by simp
  moreover have "generate_value_from_regex [CHR 0x5C, CHR ''w''] g = Inr ([CHR 0x5C, CHR ''w''], g)"
    by (simp add: engine_eval)
  moreover have "generate_value_from_regex [CHR 0x5C] g = Inr ([CHR 0x5C], g)"
    by (simp add: engine_eval)
  ultimately show ?thesis by blast
qed

theorem backslash_is_literal_witness:
  "(0::nat) < length [CHR 0x5C, CHR ''w''] \<and> [CHR 0x5C, CHR ''w''] ! 0 = CHR 0x5C
   \<and> [CHR 0x5C, CHR ''w''] ! (0 + 1) \<noteq> CHR ''.'' \<and> [CHR 0x5C, CHR ''w''] ! (0 + 1) \<noteq> CHR ''d''
   \<and> dispatch generate_value_from_regex [CHR 0x5C, CHR ''w''] 0 [3] = Inr (0 + 1, [[CHR 0x5C]], [3])
   \<and> generate_value_from_regex [CHR 0x5C, CHR ''w''] [3] = Inr ([CHR 0x5C, CHR ''w''], [3])"
  using backslash_is_literal [of 0 "[CHR 0x5C, CHR ''w'']" generate_value_from_regex "[3]"]
  by simp



text \<open>
  C7, as stated, fails: when the value under \<^verbatim>\<open>expectations\<close> is
  \<^verbatim>\<open>None\<close>, the four extraction functions raise \<^verbatim>\<open>TypeError\<close>, and
  when it is a non-empty string they raise \<^verbatim>\<open>AttributeError\<close>.
\<close>

theorem extraction_non_list_counterexample:
  "extract_value_sets (PDict [(''expectations'', PNone)]) = Inl TypeError
   \<and> extract_regex_patterns (PDict [(''expectations'', PNone)]) = Inl TypeError
   \<and> extract_strftime_formats (PDict [(''expectations'', PNone)]) = Inl TypeError
   \<and> extract_metadata_hints (PDict [(''expectations'', PNone)]) = Inl TypeError
   \<and> extract_value_sets (PDict [(''expectations'', PStr ''abc'')]) = Inl AttributeError"
  by (simp add: extractor_eval)

text \<open>
  C7, amended.  For a suite that is \<^verbatim>\<open>None\<close> or otherwise false, and for
  a mapping without the key \<^verbatim>\<open>expectations\<close>, each of the four
  extraction functions returns the empty mapping.  A value under
  \<^verbatim>\<open>expectations\<close> that is not a list is iterated all the same:
  \<^verbatim>\<open>None\<close>, a number or a boolean raises \<^verbatim>\<open>TypeError\<close>, and a
  non-empty string raises \<^verbatim>\<open>AttributeError\<close> at its first character.
\<close>

theorem extraction_tolerates_missing_suite:
  "((\<not> truthy e \<or> (\<exists>kvs. e = PDict kvs \<and> ''expectations'' \<notin> set (map fst kvs))) \<longrightarrow>
      extract_value_sets e = Inr [] \<and> extract_regex_patterns e = Inr []
      \<and> extract_strftime_formats e = Inr [] \<and> extract_metadata_hints e = Inr [])
   \<and> (map_of d ''expectations'' = Some v \<longrightarrow> v = PNone \<or> v = PInt n \<or> v = PBool b \<longrightarrow>
      extract_value_sets (PDict d) = Inl TypeError
      \<and> extract_regex_patterns (PDict d) = Inl TypeError
      \<and> extract_strftime_formats (PDict d) = Inl TypeError
      \<and> extract_metadata_hints (PDict d) = Inl TypeError)
   \<and> (map_of d' ''expectations'' = Some (PStr (c # cs)) \<longrightarrow>
      extract_value_sets (PDict d') = Inl AttributeError
      \<and> extract_regex_patterns (PDict d') = Inl AttributeError
      \<and> extract_strftime_formats (PDict d') = Inl AttributeError
      \<and> extract_metadata_hints (PDict d') = Inl AttributeError)"
proof (intro conjI impI)
  assume "\<not> truthy e \<or> (\<exists>kvs. e = PDict kvs \<and> ''expectations'' \<notin> set (map fst kvs))"
  then have "no_expectations e = Inr True"
    using no_expectations_falsy no_expectations_missing by blast
  then show "extract_value_sets e = Inr []" "extract_regex_patterns e = Inr []"
    "extract_strftime_formats e = Inr []" "extract_metadata_hints e = Inr []"
    by (rule extract_none)+
next
  assume m: "map_of d ''expectations'' = Some v" and "v = PNone \<or> v = PInt n \<or> v = PBool b"
  then have "iterate v = Inl TypeError" by auto
  with m show "extract_value_sets (PDict d) = Inl TypeError"
    "extract_regex_patterns (PDict d) = Inl TypeError"
    "extract_strftime_formats (PDict d) = Inl TypeError"
    "extract_metadata_hints (PDict d) = Inl TypeError"
    by (rule extract_not_iterable)+
next
  assume "map_of d' ''expectations'' = Some (PStr (c # cs))"
  then show "extract_value_sets (PDict d') = Inl AttributeError"
    "extract_regex_patterns (PDict d') = Inl AttributeError"
    "extract_strftime_formats (PDict d') = Inl AttributeError"
    "extract_metadata_hints (PDict d') = Inl AttributeError"
    by (rule extract_string)+
qed

theorem extraction_tolerates_missing_suite_witness:
  "(\<exists>kvs. PDict [(''name'', PStr ''s'')] = PDict kvs \<and> ''expectations'' \<notin> set (map fst kvs))
   \<and> extract_value_sets (PDict [(''name'', PStr ''s'')]) = Inr []
   \<and> extract_regex_patterns (PDict [(''name'', PStr ''s'')]) = Inr []
   \<and> extract_strftime_formats (PDict [(''name'', PStr ''s'')]) = Inr []
   \<and> extract_metadata_hints (PDict [(''name'', PStr ''s'')]) = Inr []
   \<and> map_of [(''expectations'', PInt 7)] ''expectations'' = Some (PInt 7)
   \<and> extract_value_sets (PDict [(''expectations'', PInt 7)]) = Inl TypeError
   \<and> extract_regex_patterns (PDict [(''expectations'', PInt 7)]) = Inl TypeError
   \<and> extract_strftime_formats (PDict [(''expectations'', PInt 7)]) = Inl TypeError
   \<and> extract_metadata_hints (PDict [(''expectations'', PInt 7)]) = Inl TypeError
   \<and> map_of [(''expectations'', PStr ''ab'')] ''expectations'' = Some (PStr ''ab'')
   \<and> extract_metadata_hints (PDict [(''expectations'', PStr ''ab'')]) = Inl AttributeError"
  using extraction_tolerates_missing_suite
    [of "PDict [(''name'', PStr ''s'')]" "[(''expectations'', PInt 7)]" "PInt 7" 7 True
      "[(''expectations'', PStr ''ab'')]" "CHR ''a''" "''b''"]
  by simp

text \<open>
  C8, as stated, fails in its last part: two rules for the column \<^verbatim>\<open>c\<close>
  with \<^verbatim>\<open>meta.lob\<close> equal to \<^verbatim>\<open>["MD"]\<close> and then to \<^verbatim>\<open>["ME"]\<close>
  leave the hint list \<^verbatim>\<open>["ME"]\<close>: the list of the later rule replaces
  that of the earlier one, the two are not combined.
\<close>

theorem hints_same_kind_counterexample:
  "extract_metadata_hints (PDict [(''expectations'', PList [
      PDict [(''kwargs'', PDict [(''column'', PStr ''c'')]),
             (''meta'', PDict [(''lob'', PList [PStr ''MD''])])],
      PDict [(''kwargs'', PDict [(''column'', PStr ''c'')]),
             (''meta'', PDict [(''lob'', PList [PStr ''ME''])])]])])
   = Inr [(PStr ''c'', [(''lob'', [''ME''])])]"
  by (simp add: extractor_eval)

text \<open>
  C8, amended.  The hints of a column are merged by hint kind, as
  \<^verbatim>\<open>dict.update\<close> does.  When one more expectation with a column and
  with hints is appended to a suite, the entry of its column holds, for every
  hint kind, the list of the new expectation if it has that kind, and the
  list the entry held before otherwise; so the kinds of different rules all
  appear in the one entry, and for a kind that several rules carry the list
  of the last of them stands.  The entries of the other columns do not
  change.
\<close>

theorem metadata_hints_merge_by_kind:
  assumes "extract_metadata_hints (PDict [(''expectations'', PList es)]) = Inr m"
    and "get_method e ''kwargs'' (PDict []) = Inr kwargs"
    and "get_method kwargs ''column'' PNone = Inr column"
    and "truthy column" and "hashable column"
    and "get_method e ''meta'' (PDict []) = Inr meta"
    and "expectation_hints meta = Inr hints" and "hints \<noteq> []"
  shows "\<exists>m' entry.
      extract_metadata_hints (PDict [(''expectations'', PList (es @ [e]))]) = Inr m'
      \<and> dict_get column m' = Some entry
      \<and> hint_get kind entry =
          (case hint_get kind hints of
             Some v \<Rightarrow> Some v
           | None \<Rightarrow> (case dict_get column m of None \<Rightarrow> None | Some old \<Rightarrow> hint_get kind old))
      \<and> (\<not> key_eq col column \<longrightarrow> dict_get col m' = dict_get col m)"
proof -
  let ?old = "case dict_get column m of None \<Rightarrow> [] | Some h \<Rightarrow> h"
  let ?entry = "hints_update ?old hints"
  let ?m' = "dict_put column ?entry m"
  from assms(1) have loop: "hints_loop es [] = Inr m"
    by (simp add: extract_metadata_hints_list)
  have last: "hints_loop [e] m = Inr ?m'"
    using assms(2-8) by (rule hints_loop_last)
  have "extract_metadata_hints (PDict [(''expectations'', PList (es @ [e]))]) = Inr ?m'"
    unfolding extract_metadata_hints_list hints_loop_append loop using last by simp
  moreover have "dict_get column ?m' = Some ?entry"
    by (rule dict_get_put_same)
  moreover have "hint_get kind ?entry =
      (case hint_get kind hints of
         Some v \<Rightarrow> Some v
       | None \<Rightarrow> (case dict_get column m of None \<Rightarrow> None | Some old \<Rightarrow> hint_get kind old))"
    using hint_get_update [OF expectation_hints_distinct [OF assms(7)], of kind ?old]
    by (simp split: option.splits)
  moreover have "\<not> key_eq col column \<longrightarrow> dict_get col ?m' = dict_get col m"
    by (simp add: dict_get_put_other)
  ultimately show ?thesis by blast
qed

theorem metadata_hints_merge_by_kind_witness:
  "extract_metadata_hints (PDict [(''expectations'', PList [
      PDict [(''kwargs'', PDict [(''column'', PStr ''c'')]),
             (''meta'', PDict [(''lob'', PList [PStr ''MD''])])]])])
     = Inr [(PStr ''c'', [(''lob'', [''MD''])])]
   \<and> get_method (PDict [(''kwargs'', PDict [(''column'', PStr ''c'')]),
                       (''meta'', PDict [(''states'', PList [PStr ''NY'', PStr ''NJ''])])])
        ''kwargs'' (PDict []) = Inr (PDict [(''column'', PStr ''c'')])
   \<and> get_method (PDict [(''column'', PStr ''c'')]) ''column'' PNone = Inr (PStr ''c'')
   \<and> truthy (PStr ''c'') \<and> hashable (PStr ''c'')
   \<and> get_method (PDict [(''kwargs'', PDict [(''column'', PStr ''c'')]),
                       (''meta'', PDict [(''states'', PList [PStr ''NY'', PStr ''NJ''])])])
        ''meta'' (PDict []) = Inr (PDict [(''states'', PList [PStr ''NY'', PStr ''NJ''])])
   \<and> expectation_hints (PDict [(''states'', PList [PStr ''NY'', PStr ''NJ''])])
        = Inr [(''states'', [''NY'', ''NJ''])]
   \<and> [(''states'', [''NY'', ''NJ''])] \<noteq> ([] :: hints)
   \<and> extract_metadata_hints (PDict [(''expectations'', PList [
        PDict [(''kwargs'', PDict [(''column'', PStr ''c'')]),
               (''meta'', PDict [(''lob'', PList [PStr ''MD''])])],
        PDict [(''kwargs'', PDict [(''column'', PStr ''c'')]),
               (''meta'', PDict [(''states'', PList [PStr ''NY'', PStr ''NJ''])])]])])
     = Inr [(PStr ''c'', [(''lob'', [''MD'']), (''states'', [''NY'', ''NJ''])])]"
proof -
  have h1: "extract_metadata_hints (PDict [(''expectations'', PList [
      PDict [(''kwargs'', PDict [(''column'', PStr ''c'')]),
             (''meta'', PDict [(''lob'', PList [PStr ''MD''])])]])])
     = Inr [(PStr ''c'', [(''lob'', [''MD''])])]"
    by (simp add: extractor_eval)
  have h7: "expectation_hints (PDict [(''states'', PList [PStr ''NY'', PStr ''NJ''])])
        = Inr [(''states'', [''NY'', ''NJ''])]"
    by (simp add: extractor_eval)
  from metadata_hints_merge_by_kind [OF h1 _ _ _ _ _ h7, of
      "PDict [(''kwargs'', PDict [(''column'', PStr ''c'')]),
              (''meta'', PDict [(''states'', PList [PStr ''NY'', PStr ''NJ''])])]"
      "PDict [(''column'', PStr ''c'')]" "PStr ''c''" "''lob''" "PStr ''d''"]
  have "\<exists>m'. extract_metadata_hints (PDict [(''expectations'', PList ([
        PDict [(''kwargs'', PDict [(''column'', PStr ''c'')]),
               (''meta'', PDict [(''lob'', PList [PStr ''MD''])])]] @ [
        PDict [(''kwargs'', PDict [(''column'', PStr ''c'')]),
               (''meta'', PDict [(''states'', PList [PStr ''NY'', PStr ''NJ''])])]]))])
     = Inr m'"
    by auto
  then show ?thesis
    using h1 h7 by (simp add: extractor_eval)
qed



end
